theory Spec2Isabelle
  imports Complex_Main "HOL-Library.Char_ord" "HOL-Library.List_Lexorder" "HOL-Library.Sublist"
begin

section \<open>JavaScript string and array helpers used by the workers\<close>

text \<open>
  Strings of the workers are modelled as \<^typ>\<open>string\<close>: one \<^typ>\<open>char\<close> per code unit,
  restricted to the Latin-1 range. \<open>is_space\<close> is the class \<open>\s\<close> of a JavaScript regular
  expression on that range (tab, line feed, vertical tab, form feed, carriage return,
  space, no-break space).
\<close>

definition is_space :: "char \<Rightarrow> bool" where
  "is_space c = (c = CHR 0x09 \<or> c = CHR 0x0A \<or> c = CHR 0x0B \<or> c = CHR 0x0C
      \<or> c = CHR 0x0D \<or> c = CHR 0x20 \<or> c = CHR 0xA0)"

text \<open>
  \<open>text.split(/\s+/)\<close>: the pieces between maximal runs of white space. A run at the
  start or at the end of the text leaves an empty piece there, and the empty text
  splits into the single piece \<open>''''\<close>. \<open>in_sep\<close> says that the previous character was
  white space; \<open>cur\<close> is the current piece, reversed.
\<close>

fun split_ws_aux :: "bool \<Rightarrow> string \<Rightarrow> string \<Rightarrow> string list" where
  "split_ws_aux in_sep cur [] = [rev cur]"
| "split_ws_aux in_sep cur (c # cs) =
     (if is_space c
      then (if in_sep then split_ws_aux True cur cs
            else rev cur # split_ws_aux True [] cs)
      else split_ws_aux False (c # cur) cs)"

definition js_split_ws :: "string \<Rightarrow> string list" where
  "js_split_ws s = split_ws_aux False [] s"

text \<open>\<open>words.join(' ')\<close>.\<close>

fun js_join_sp :: "string list \<Rightarrow> string" where
  "js_join_sp [] = []"
| "js_join_sp [w] = w"
| "js_join_sp (w # v # ws) = w @ CHR 0x20 # js_join_sp (v # ws)"

text \<open>
  \<open>xs.slice(s, e)\<close>: a negative index counts from the end, and both indices are clamped
  to the array.
\<close>

definition js_slice :: "'a list \<Rightarrow> int \<Rightarrow> int \<Rightarrow> 'a list" where
  "js_slice xs s e =
     (let n = int (length xs);
          k = (if s < 0 then max (n + s) 0 else min s n);
          f = (if e < 0 then max (n + e) 0 else min e n)
      in take (nat (f - k)) (drop (nat k) xs))"

text \<open>\<open>s.substring(0, n)\<close> for a constant \<open>n \<ge> 0\<close>.\<close>

definition js_prefix :: "nat \<Rightarrow> string \<Rightarrow> string" where
  "js_prefix n s = take n s"

section \<open>Chunker: \<open>chunkText\<close> of workers/shared/processing.ts\<close>

record text_chunk =
  c_text :: string
  tokenCount :: nat

text \<open>
  The \<open>while\<close> loop of \<open>chunkText\<close>. The source's loop has no bound of its own (it runs
  for ever when the window does not advance), so the model is a partial function:
  \<open>None\<close> is a loop that does not return. \<open>Math.ceil(n / 0.75)\<close> is \<open>(4 * n + 2) div 3\<close>
  on the natural numbers.
\<close>

partial_function (option) chunk_loop ::
  "string list \<Rightarrow> int \<Rightarrow> int \<Rightarrow> int \<Rightarrow> text_chunk list \<Rightarrow> text_chunk list option" where
  "chunk_loop words wordsPerChunk overlapWords start chunks =
     (if start < int (length words)
      then (let e = min (start + wordsPerChunk) (int (length words));
                chunkWords = js_slice words start e;
                chunks' = chunks @ [\<lparr>c_text = js_join_sp chunkWords,
                                      tokenCount = (4 * length chunkWords + 2) div 3\<rparr>];
                start' = e - overlapWords
            in if start' \<ge> int (length words) - overlapWords then Some chunks'
               else chunk_loop words wordsPerChunk overlapWords start' chunks')
      else Some chunks)"

declare chunk_loop.simps [code]

text \<open>
  \<open>chunkText(text, targetTokens, overlapTokens)\<close> for integer parameters:
  \<open>Math.floor(t * 0.75)\<close> is \<open>(3 * t) div 4\<close>.
\<close>

definition chunkText :: "string \<Rightarrow> int \<Rightarrow> int \<Rightarrow> text_chunk list option" where
  "chunkText txt targetTokens overlapTokens =
     chunk_loop (js_split_ws txt) ((3 * targetTokens) div 4) ((3 * overlapTokens) div 4) 0 []"

text \<open>Decimal digits of a number, as a template literal \<open>`${i}`\<close> prints them.\<close>

fun nat_to_string :: "nat \<Rightarrow> string" where
  "nat_to_string n =
     (if n < 10 then [''0123456789'' ! n]
      else nat_to_string (n div 10) @ [''0123456789'' ! (n mod 10)])"

declare nat_to_string.simps [simp del]

section \<open>Data model: the D1 tables, the R2 bucket, the vector index\<close>

datatype doc_status = StPending | StProcessing | StReady | StError

text \<open>
  A row of \<open>documents\<close>. Time stamps are the ISO strings of \<open>toISOString\<close>; the database
  compares them as text.
\<close>

record document =
  d_id :: string
  d_workspace_id :: string
  d_user_id :: string
  d_title :: string
  d_file_key :: string
  d_text_key :: "string option"
  d_content_hash :: string
  d_mime_type :: string
  d_file_size_bytes :: nat
  d_status :: doc_status
  d_error_message :: "string option"
  d_created_at :: string
  d_updated_at :: string

record tag =
  t_id :: string
  t_workspace_id :: string
  t_name :: string
  t_category :: "string option"
  usage_count :: int
  t_created_at :: string

datatype tag_source = Ai_suggested | User_added | User_modified

record document_tag =
  dt_document_id :: string
  dt_tag_id :: string
  dt_source :: tag_source
  dt_confidence :: "real option"
  dt_created_at :: string

record chunk_row =
  ch_id :: string
  ch_document_id :: string
  chunk_index :: nat
  text_content :: string
  token_count :: nat

type_synonym embedding = "real list"

record vector_entry =
  v_values :: embedding
  v_document_id :: string
  v_workspace_id :: string
  v_chunk_index :: nat
  v_text :: string

text \<open>\<open>ProcessingQueueMessage\<close> of shared/types.ts.\<close>

record queue_message =
  m_type :: string
  document_id :: string
  workspace_id :: string
  user_id :: string
  file_key :: string
  mime_type :: string

text \<open>
  The state of the collaborators: the D1 tables (rows in insertion order), the R2 bucket
  \<open>FILES\<close>, the index \<open>VECTORS\<close>, the queue \<open>PROCESSING_QUEUE\<close> and the number of
  identifiers \<open>crypto.randomUUID\<close> has handed out. Of the schema's constraints the
  primary keys and the \<open>UNIQUE\<close> constraints are modelled.
\<close>

record state =
  documents :: "document list"
  tags :: "tag list"
  document_tags :: "document_tag list"
  document_chunks :: "chunk_row list"
  workspace_members :: "(string \<times> string \<times> string) list"
  files :: "string \<Rightarrow> string option"
  vectors :: "string \<Rightarrow> vector_entry option"
  processing_queue :: "queue_message list"
  uuid_count :: nat

text \<open>What a \<open>throw\<close> carries: an \<open>Error\<close> with its message, or any other value.\<close>

datatype exn = JsError string | JsThrown

text \<open>\<open>error instanceof Error ? error.message : 'Unknown error'\<close>.\<close>

fun exn_message :: "exn \<Rightarrow> string" where
  "exn_message (JsError m) = m"
| "exn_message JsThrown = ''Unknown error''"

text \<open>
  The calls to a collaborator that can reject, by the place of the call. The number is
  the index of the chunk or of the suggested tag whose loop iteration makes the call.
\<close>

datatype call_site =
    DbSetProcessing | FilesGet | FileRead | FilesPutText
  | AiEmbed nat | VecUpsert nat | DbInsertChunk nat
  | DbTopTags | AiSuggest
  | DbSelectTag nat | DbInsertTag nat | DbInsertDocTag nat
  | DbSetReady | DbSetError
  | DbSelectDuplicate | FilesPut | DbInsertDocument | QueueSend
  | DbSearch | AiQueryEmbed | VecQuery | DbSelectTitle

record suggested_tag =
  s_name :: string
  s_category :: "string option"
  s_confidence :: real

datatype vfilter = WsEq string | WsIn "string list"

record vmatch =
  vm_id :: string
  vm_score :: "real option"
  vm_document_id :: "string option"
  vm_text :: "string option"

text \<open>
  The environment of a call: which collaborator calls reject (\<open>faults\<close>), and what the
  platform and the models answer. \<open>pdf_text\<close> is unpdf (\<open>None\<close>: it throws), \<open>vision\<close> the
  image model (\<open>None\<close>: the call throws; the empty string: no description), \<open>llm_tags\<close>
  the tagging model's answer after \<open>JSON.parse\<close> (the empty list when the answer does
  not parse or is no array), given the existing tag names and the text prefix.
\<close>

record env =
  faults :: "call_site \<Rightarrow> exn option"
  has_queue :: bool
  now :: string
  uuid :: "nat \<Rightarrow> string"
  sha256 :: "string \<Rightarrow> string"
  text_decode :: "string \<Rightarrow> string"
  pdf_text :: "string \<Rightarrow> string option"
  vision :: "string \<Rightarrow> string option"
  ai_embed :: "string \<Rightarrow> embedding"
  llm_tags :: "string list \<Rightarrow> string \<Rightarrow> suggested_tag list"
  vec_query :: "embedding \<Rightarrow> int \<Rightarrow> vfilter \<Rightarrow> vmatch list"
  sql_like :: "string \<Rightarrow> string \<Rightarrow> bool"
  date_ms :: "string \<Rightarrow> int"

subsection \<open>Calls that can reject\<close>

text \<open>
  An effect returns its outcome (\<open>Inl\<close>: the exception thrown) and the state at that
  moment.
\<close>

type_synonym 'a effect = "state \<Rightarrow> (exn + 'a) \<times> state"

definition ret :: "'a \<Rightarrow> 'a effect" where
  "ret x s = (Inr x, s)"

definition throw :: "exn \<Rightarrow> 'a effect" where
  "throw e s = (Inl e, s)"

definition andThen :: "'a effect \<Rightarrow> ('a \<Rightarrow> 'b effect) \<Rightarrow> 'b effect" where
  "andThen m f s = (case m s of (Inl e, s') \<Rightarrow> (Inl e, s') | (Inr x, s') \<Rightarrow> f x s')"

definition fault :: "env \<Rightarrow> call_site \<Rightarrow> unit effect" where
  "fault en c s = (case faults en c of Some e \<Rightarrow> (Inl e, s) | None \<Rightarrow> (Inr (), s))"

definition modify :: "(state \<Rightarrow> state) \<Rightarrow> unit effect" where
  "modify f s = (Inr (), f s)"

text \<open>\<open>crypto.randomUUID()\<close>: the next identifier of the environment's supply.\<close>

definition randomUUID :: "env \<Rightarrow> string effect" where
  "randomUUID en s = (Inr (uuid en (uuid_count s)), s\<lparr>uuid_count := Suc (uuid_count s)\<rparr>)"

section \<open>Ingestion pipeline: workers/shared/processing.ts\<close>

subsection \<open>The SQL statements of the pipeline\<close>

text \<open>\<open>UPDATE documents SET status = ?, updated_at = ? WHERE id = ?\<close>\<close>

definition update_status :: "string \<Rightarrow> doc_status \<Rightarrow> string \<Rightarrow> state \<Rightarrow> state" where
  "update_status docId st ts s =
     s\<lparr>documents := map (\<lambda>d. if d_id d = docId
                                then d\<lparr>d_status := st, d_updated_at := ts\<rparr> else d)
                          (documents s)\<rparr>"

text \<open>\<open>UPDATE documents SET status = 'ready', text_key = ?, updated_at = ? WHERE id = ?\<close>\<close>

definition update_ready :: "string \<Rightarrow> string \<Rightarrow> string \<Rightarrow> state \<Rightarrow> state" where
  "update_ready docId textKey ts s =
     s\<lparr>documents := map (\<lambda>d. if d_id d = docId
                                then d\<lparr>d_status := StReady, d_text_key := Some textKey,
                                       d_updated_at := ts\<rparr> else d)
                          (documents s)\<rparr>"

text \<open>\<open>UPDATE documents SET status = 'error', error_message = ?, updated_at = ? WHERE id = ?\<close>\<close>

definition update_error :: "string \<Rightarrow> string \<Rightarrow> string \<Rightarrow> state \<Rightarrow> state" where
  "update_error docId msg ts s =
     s\<lparr>documents := map (\<lambda>d. if d_id d = docId
                                then d\<lparr>d_status := StError, d_error_message := Some msg,
                                       d_updated_at := ts\<rparr> else d)
                          (documents s)\<rparr>"

text \<open>
  \<open>INSERT INTO document_chunks\<close>: the primary key \<open>id\<close> rejects a second row with the
  same identifier.
\<close>

definition insert_chunk :: "chunk_row \<Rightarrow> unit effect" where
  "insert_chunk r s =
     (if ch_id r \<in> set (map ch_id (document_chunks s))
      then (Inl (JsError ''D1_ERROR: UNIQUE constraint failed: document_chunks.id''), s)
      else (Inr (), s\<lparr>document_chunks := document_chunks s @ [r]\<rparr>))"

text \<open>\<open>INSERT INTO tags\<close>: primary key \<open>id\<close>, and \<open>UNIQUE (workspace_id, name)\<close>.\<close>

definition insert_tag :: "tag \<Rightarrow> unit effect" where
  "insert_tag t s =
     (if t_id t \<in> set (map t_id (tags s))
      then (Inl (JsError ''D1_ERROR: UNIQUE constraint failed: tags.id''), s)
      else if (t_workspace_id t, t_name t) \<in> set (map (\<lambda>u. (t_workspace_id u, t_name u)) (tags s))
      then (Inl (JsError ''D1_ERROR: UNIQUE constraint failed: tags.workspace_id, tags.name''), s)
      else (Inr (), s\<lparr>tags := tags s @ [t]\<rparr>))"

text \<open>\<open>INSERT INTO document_tags\<close>: primary key \<open>(document_id, tag_id)\<close>.\<close>

definition insert_document_tag :: "document_tag \<Rightarrow> unit effect" where
  "insert_document_tag r s =
     (if (dt_document_id r, dt_tag_id r)
           \<in> set (map (\<lambda>u. (dt_document_id u, dt_tag_id u)) (document_tags s))
      then (Inl (JsError
        ''D1_ERROR: UNIQUE constraint failed: document_tags.document_id, document_tags.tag_id''), s)
      else (Inr (), s\<lparr>document_tags := document_tags s @ [r]\<rparr>))"

text \<open>\<open>SELECT id FROM tags WHERE workspace_id = ? AND name = ?\<close>, \<open>.first()\<close>\<close>

definition select_tag :: "string \<Rightarrow> string \<Rightarrow> state \<Rightarrow> tag option" where
  "select_tag ws name s = find (\<lambda>t. t_workspace_id t = ws \<and> t_name t = name) (tags s)"

subsection \<open>Extractor\<close>

text \<open>\<open>extractWithAI\<close>: every failure inside is caught and becomes a placeholder.\<close>

definition extractWithAI :: "string \<Rightarrow> string \<Rightarrow> env \<Rightarrow> string" where
  "extractWithAI content mimeType en =
     (if prefix ''image/'' mimeType
      then (case vision en content of
              None \<Rightarrow> ''[Could not extract text from '' @ mimeType @ '']''
            | Some d \<Rightarrow> if d = [] then ''[No text found in image]'' else d)
      else ''[Document type '' @ mimeType @ '' - text extraction pending]'')"

text \<open>
  \<open>extractText\<close> of shared/processing.ts: the dispatch on the mime type. Only
  \<open>file.arrayBuffer()\<close> stands outside a \<open>try\<close>; \<open>extracted_text\<close> is what the function
  returns once the bytes are read.
\<close>

definition extracted_text :: "string \<Rightarrow> string \<Rightarrow> env \<Rightarrow> string" where
  "extracted_text content mimeType en =
     (if mimeType = ''text/plain'' then text_decode en content
      else if mimeType = ''application/pdf''
      then (case pdf_text en content of
              Some t \<Rightarrow> if t = [] then ''[PDF content could not be extracted]'' else t
            | None \<Rightarrow> extractWithAI content mimeType en)
      else if prefix ''image/'' mimeType then extractWithAI content mimeType en
      else if mimeType
        = ''application/vnd.openxmlformats-officedocument.wordprocessingml.document''
      then extractWithAI content mimeType en
      else if mimeType = ''application/vnd.openxmlformats-officedocument.spreadsheetml.sheet''
      then extractWithAI content mimeType en
      else ''[Unsupported document type: '' @ mimeType @ '']'')"

definition extractText :: "string \<Rightarrow> string \<Rightarrow> env \<Rightarrow> string effect" where
  "extractText content mimeType en =
     andThen (fault en FileRead) (\<lambda>_. ret (extracted_text content mimeType en))"

subsection \<open>Embedding loop\<close>

definition chunkId :: "string \<Rightarrow> nat \<Rightarrow> string" where
  "chunkId docId i = docId @ ''_'' @ nat_to_string i"

text \<open>One iteration: embed, upsert into the index, insert the chunk row.\<close>

definition embed_chunk :: "queue_message \<Rightarrow> env \<Rightarrow> nat \<Rightarrow> text_chunk \<Rightarrow> unit effect" where
  "embed_chunk data en i c =
     andThen (fault en (AiEmbed i)) (\<lambda>_.
     andThen (fault en (VecUpsert i)) (\<lambda>_.
     andThen (modify (\<lambda>s. s\<lparr>vectors := (vectors s)(chunkId (document_id data) i \<mapsto>
                \<lparr>v_values = ai_embed en (c_text c), v_document_id = document_id data,
                 v_workspace_id = workspace_id data, v_chunk_index = i,
                 v_text = js_prefix 500 (c_text c)\<rparr>)\<rparr>)) (\<lambda>_.
     andThen (fault en (DbInsertChunk i)) (\<lambda>_.
     insert_chunk \<lparr>ch_id = chunkId (document_id data) i, ch_document_id = document_id data,
                   chunk_index = i, text_content = c_text c, token_count = tokenCount c\<rparr>))))"

fun embed_chunks :: "queue_message \<Rightarrow> env \<Rightarrow> nat \<Rightarrow> text_chunk list \<Rightarrow> unit effect" where
  "embed_chunks data en i [] s = (Inr (), s)"
| "embed_chunks data en i (c # cs) s =
     (case embed_chunk data en i c s of
        (Inl e, s') \<Rightarrow> (Inl e, s')
      | (Inr u, s') \<Rightarrow> embed_chunks data en (Suc i) cs s')"

subsection \<open>Tagger\<close>

text \<open>
  \<open>autoTag\<close>: the 50 most used tags of the workspace go into the prompt with the first
  2000 characters of the text. A call that rejects is not caught here.
\<close>

definition autoTag :: "string \<Rightarrow> string \<Rightarrow> env \<Rightarrow> suggested_tag list effect" where
  "autoTag txt workspaceId en =
     andThen (fault en DbTopTags) (\<lambda>_. (\<lambda>s.
       (let existingTagNames = map t_name (take 50 (sort_key (\<lambda>t. - usage_count t)
              (filter (\<lambda>t. t_workspace_id t = workspaceId) (tags s))))
        in andThen (fault en AiSuggest) (\<lambda>_.
             ret (llm_tags en existingTagNames (js_prefix 2000 txt)))) s))"

text \<open>
  One iteration of the loop over the suggested tags: find or create the tag, then
  insert the association. \<open>tag.category || null\<close> turns the empty string into \<open>null\<close>.
\<close>

definition store_tag :: "queue_message \<Rightarrow> env \<Rightarrow> nat \<Rightarrow> suggested_tag \<Rightarrow> unit effect" where
  "store_tag data en j tg =
     andThen (fault en (DbSelectTag j)) (\<lambda>_. (\<lambda>s.
       andThen
         (case select_tag (workspace_id data) (s_name tg) s of
            Some t \<Rightarrow> ret (t_id t)
          | None \<Rightarrow>
              andThen (randomUUID en) (\<lambda>tagId.
              andThen (fault en (DbInsertTag j)) (\<lambda>_.
              andThen (insert_tag \<lparr>t_id = tagId, t_workspace_id = workspace_id data,
                         t_name = s_name tg,
                         t_category = (if s_category tg = Some [] then None else s_category tg),
                         usage_count = 0, t_created_at = now en\<rparr>) (\<lambda>_.
              ret tagId))))
         (\<lambda>tagId.
            andThen (fault en (DbInsertDocTag j)) (\<lambda>_.
            insert_document_tag \<lparr>dt_document_id = document_id data, dt_tag_id = tagId,
               dt_source = Ai_suggested, dt_confidence = Some (s_confidence tg),
               dt_created_at = now en\<rparr>)) s))"

fun store_tags :: "queue_message \<Rightarrow> env \<Rightarrow> nat \<Rightarrow> suggested_tag list \<Rightarrow> unit effect" where
  "store_tags data en j [] s = (Inr (), s)"
| "store_tags data en j (tg # tgs) s =
     (case store_tag data en j tg s of
        (Inl e, s') \<Rightarrow> (Inl e, s')
      | (Inr u, s') \<Rightarrow> store_tags data en (Suc j) tgs s')"

subsection \<open>\<open>processDocument\<close>\<close>

text \<open>
  The \<open>try\<close> block, over the extractor it calls, in two parts. \<open>process_blob\<close> is what
  follows the fetch of the blob: extract, store the text, chunk and embed, tag, set
  \<open>ready\<close>. \<open>chunkText(text, 512, 64)\<close> always returns (lemma
  \<open>chunkText_512_64_returns\<close>), so its value is taken with \<^const>\<open>the\<close>.
\<close>

definition process_blob ::
  "(string \<Rightarrow> string \<Rightarrow> env \<Rightarrow> string effect) \<Rightarrow> queue_message \<Rightarrow> env \<Rightarrow> string
     \<Rightarrow> unit effect" where
  "process_blob extract data en content =
     andThen (extract content (mime_type data) en) (\<lambda>txt.
     andThen (fault en FilesPutText) (\<lambda>_.
     andThen (modify (\<lambda>s. s\<lparr>files := (files s)(''text/'' @ document_id data @ ''.txt''
                 \<mapsto> txt)\<rparr>)) (\<lambda>_.
     andThen (embed_chunks data en 0 (the (chunkText txt 512 64))) (\<lambda>_.
     andThen (autoTag txt (workspace_id data) en) (\<lambda>tgs.
     andThen (store_tags data en 0 tgs) (\<lambda>_.
     andThen (fault en DbSetReady) (\<lambda>_.
     modify (update_ready (document_id data)
               (''text/'' @ document_id data @ ''.txt'') (now en)))))))))"

text \<open>\<open>env.FILES.get(file_key)\<close>; a missing blob throws.\<close>

definition get_blob :: "queue_message \<Rightarrow> string effect" where
  "get_blob data s =
     (case files s (file_key data) of
        None \<Rightarrow> (Inl (JsError ''File not found in storage''), s)
      | Some content \<Rightarrow> (Inr content, s))"

definition processDocument_try ::
  "(string \<Rightarrow> string \<Rightarrow> env \<Rightarrow> string effect) \<Rightarrow> queue_message \<Rightarrow> env \<Rightarrow> unit effect" where
  "processDocument_try extract data en =
     andThen (fault en DbSetProcessing) (\<lambda>_.
     andThen (modify (update_status (document_id data) StProcessing (now en))) (\<lambda>_.
     andThen (fault en FilesGet) (\<lambda>_.
     andThen (get_blob data) (\<lambda>content.
     process_blob extract data en content))))"

text \<open>
  The whole function: an exception of the \<open>try\<close> block is caught and written to the
  document; an exception of that write leaves the function.
\<close>

definition processDocument_with ::
  "(string \<Rightarrow> string \<Rightarrow> env \<Rightarrow> string effect) \<Rightarrow> queue_message \<Rightarrow> env \<Rightarrow> unit effect" where
  "processDocument_with extract data en s =
     (case processDocument_try extract data en s of
        (Inr u, s') \<Rightarrow> (Inr (), s')
      | (Inl e, s') \<Rightarrow>
          andThen (fault en DbSetError) (\<lambda>_.
            modify (update_error (document_id data) (exn_message e) (now en))) s')"

definition processDocument :: "queue_message \<Rightarrow> env \<Rightarrow> unit effect" where
  "processDocument = processDocument_with extractText"

section \<open>Queue consumer: \<open>queue\<close> of workers/api/index.ts\<close>

datatype delivery = Ack | Retry

text \<open>
  \<open>queue(batch, env)\<close>: each message is processed inside a \<open>try\<close>, by the
  \<open>processDocument\<close> imported from shared/processing.ts; it is acknowledged when the
  processing returns and retried when it throws.
\<close>

fun queue_consumer :: "queue_message list \<Rightarrow> env \<Rightarrow> state \<Rightarrow> delivery list \<times> state" where
  "queue_consumer [] en s = ([], s)"
| "queue_consumer (m # ms) en s =
     (case (if m_type m = ''document_uploaded'' then processDocument m en s else (Inr (), s)) of
        (Inl e, s') \<Rightarrow> (case queue_consumer ms en s' of (ds, s'') \<Rightarrow> (Retry # ds, s''))
      | (Inr u, s') \<Rightarrow> (case queue_consumer ms en s' of (ds, s'') \<Rightarrow> (Ack # ds, s'')))"

section \<open>Upload: \<open>uploadFile\<close> of the document routes\<close>

record upload_file =
  f_name :: string
  f_type :: string
  f_content :: string

text \<open>\<open>DocumentUploadResponse\<close>\<close>

record upload_response =
  r_id :: string
  r_title :: string
  r_status :: string
  r_created_at :: string

definition ascii_lower :: "char \<Rightarrow> char" where
  "ascii_lower c = (if CHR ''A'' \<le> c \<and> c \<le> CHR ''Z'' then char_of (of_char c + (32::nat)) else c)"

text \<open>The part of a name after its last dot: \<open>filename.split('.').pop()\<close>.\<close>

definition last_piece :: "string \<Rightarrow> string" where
  "last_piece name = rev (takeWhile (\<lambda>c. c \<noteq> CHR ''.'') (rev name))"

definition getMimeType :: "string \<Rightarrow> string" where
  "getMimeType filename =
     (case map_of
        [(''pdf'', ''application/pdf''),
         (''docx'', ''application/vnd.openxmlformats-officedocument.wordprocessingml.document''),
         (''xlsx'', ''application/vnd.openxmlformats-officedocument.spreadsheetml.sheet''),
         (''jpg'', ''image/jpeg''),
         (''jpeg'', ''image/jpeg''),
         (''png'', ''image/png''),
         (''txt'', ''text/plain''),
         (''eml'', ''message/rfc822'')]
        (map ascii_lower (last_piece filename)) of
        Some m \<Rightarrow> m
      | None \<Rightarrow> ''application/octet-stream'')"

definition allowedTypes :: "string list" where
  "allowedTypes =
     [''application/pdf'',
      ''application/vnd.openxmlformats-officedocument.wordprocessingml.document'',
      ''application/vnd.openxmlformats-officedocument.spreadsheetml.sheet'',
      ''image/jpeg'',
      ''image/png'',
      ''text/plain'',
      ''message/rfc822'']"

text \<open>\<open>INSERT INTO documents\<close>: primary key \<open>id\<close>.\<close>

definition insert_document :: "document \<Rightarrow> unit effect" where
  "insert_document d s =
     (if d_id d \<in> set (map d_id (documents s))
      then (Inl (JsError ''D1_ERROR: UNIQUE constraint failed: documents.id''), s)
      else (Inr (), s\<lparr>documents := documents s @ [d]\<rparr>))"

text \<open>
  \<open>SELECT id, title FROM documents WHERE workspace_id = ? AND content_hash = ?\<close>,
  \<open>.first()\<close>
\<close>

definition select_duplicate :: "string \<Rightarrow> string \<Rightarrow> state \<Rightarrow> document option" where
  "select_duplicate ws h s =
     find (\<lambda>d. d_workspace_id d = ws \<and> d_content_hash d = h) (documents s)"

text \<open>
  The end of \<open>uploadFile\<close>: with a queue the message is sent and the answer is
  \<open>pending\<close>; without one the pipeline runs inside the call, and the answer is \<open>ready\<close>
  when it returns and \<open>error\<close> when it throws.
\<close>

definition start_processing ::
  "queue_message \<Rightarrow> upload_file \<Rightarrow> env \<Rightarrow> upload_response effect" where
  "start_processing message file en =
     (if has_queue en
      then andThen (fault en QueueSend) (\<lambda>_.
           andThen (modify (\<lambda>s. s\<lparr>processing_queue := processing_queue s @ [message]\<rparr>)) (\<lambda>_.
           ret \<lparr>r_id = document_id message, r_title = f_name file, r_status = ''pending'',
                r_created_at = now en\<rparr>))
      else (\<lambda>s. case processDocument message en s of
              (Inr u, s') \<Rightarrow>
                (Inr \<lparr>r_id = document_id message, r_title = f_name file, r_status = ''ready'',
                      r_created_at = now en\<rparr>, s')
            | (Inl e, s') \<Rightarrow>
                (Inr \<lparr>r_id = document_id message, r_title = f_name file, r_status = ''error'',
                      r_created_at = now en\<rparr>, s')))"

text \<open>
  \<open>uploadFile\<close> once no duplicate was found: check the type, store the blob, insert the
  document row, start the processing.
\<close>

definition upload_new ::
  "upload_file \<Rightarrow> string \<Rightarrow> string \<Rightarrow> env \<Rightarrow> string \<Rightarrow> upload_response effect" where
  "upload_new file workspaceId userId en docId =
     (let mimeType = (if f_type file = [] then getMimeType (f_name file) else f_type file);
          fileKey = ''documents/'' @ workspaceId @ ''/'' @ docId @ ''/'' @ f_name file
      in if mimeType \<notin> set allowedTypes
         then throw (JsError (''Unsupported file type: '' @ mimeType))
         else
           andThen (fault en FilesPut) (\<lambda>_.
           andThen (modify (\<lambda>s. s\<lparr>files := (files s)(fileKey \<mapsto> f_content file)\<rparr>)) (\<lambda>_.
           andThen (fault en DbInsertDocument) (\<lambda>_.
           andThen (insert_document
             \<lparr>d_id = docId, d_workspace_id = workspaceId, d_user_id = userId,
              d_title = f_name file, d_file_key = fileKey, d_text_key = None,
              d_content_hash = sha256 en (f_content file), d_mime_type = mimeType,
              d_file_size_bytes = length (f_content file), d_status = StPending,
              d_error_message = None, d_created_at = now en, d_updated_at = now en\<rparr>) (\<lambda>_.
           start_processing
             \<lparr>m_type = ''document_uploaded'', document_id = docId,
              workspace_id = workspaceId, user_id = userId, file_key = fileKey,
              mime_type = mimeType\<rparr> file en)))))"

text \<open>
  \<open>uploadFile\<close>: a document of the workspace with the same content hash is answered as
  \<open>duplicate\<close>, with its identifier and title.
\<close>

definition uploadFile :: "upload_file \<Rightarrow> string \<Rightarrow> string \<Rightarrow> env \<Rightarrow> upload_response effect" where
  "uploadFile file workspaceId userId en =
     andThen (randomUUID en) (\<lambda>docId.
     andThen (fault en DbSelectDuplicate) (\<lambda>_.
     andThen (\<lambda>s. (Inr (select_duplicate workspaceId (sha256 en (f_content file)) s), s))
       (\<lambda>existing.
          case existing of
            Some d \<Rightarrow> ret \<lparr>r_id = d_id d, r_title = d_title d, r_status = ''duplicate'',
                           r_created_at = now en\<rparr>
          | None \<Rightarrow> upload_new file workspaceId userId en docId)))"

section \<open>Tag associations: the helpers of the tag routes, document delete\<close>

text \<open>\<open>addTagsToDocument\<close>: the association is inserted, and counted, only when absent.\<close>

fun addTagsToDocument :: "string \<Rightarrow> string list \<Rightarrow> tag_source \<Rightarrow> env \<Rightarrow> state \<Rightarrow> state" where
  "addTagsToDocument documentId [] source en s = s"
| "addTagsToDocument documentId (tagId # tagIds) source en s =
     addTagsToDocument documentId tagIds source en
       (if list_ex (\<lambda>r. dt_document_id r = documentId \<and> dt_tag_id r = tagId) (document_tags s)
        then s
        else s\<lparr>document_tags := document_tags s @
                  [\<lparr>dt_document_id = documentId, dt_tag_id = tagId, dt_source = source,
                    dt_confidence = None, dt_created_at = now en\<rparr>],
               tags := map (\<lambda>t. if t_id t = tagId
                                 then t\<lparr>usage_count := usage_count t + 1\<rparr> else t) (tags s)\<rparr>)"

text \<open>
  \<open>removeTagsFromDocument\<close>: the association is deleted and the counter decremented
  (not below zero), whether or not a row was deleted.
\<close>

fun removeTagsFromDocument :: "string \<Rightarrow> string list \<Rightarrow> state \<Rightarrow> state" where
  "removeTagsFromDocument documentId [] s = s"
| "removeTagsFromDocument documentId (tagId # tagIds) s =
     removeTagsFromDocument documentId tagIds
       (s\<lparr>document_tags := filter (\<lambda>r. \<not> (dt_document_id r = documentId \<and> dt_tag_id r = tagId))
                               (document_tags s),
          tags := map (\<lambda>t. if t_id t = tagId
                            then t\<lparr>usage_count := max 0 (usage_count t - 1)\<rparr> else t) (tags s)\<rparr>)"

text \<open>
  The deletes of the document routes' \<open>handleDelete\<close>, after its access checks: blobs,
  vectors, chunk rows, associations, the document row.
\<close>

definition delete_document :: "string \<Rightarrow> state \<Rightarrow> state" where
  "delete_document docId s =
     (let doc = find (\<lambda>d. d_id d = docId) (documents s);
          keys = (case doc of None \<Rightarrow> []
                  | Some d \<Rightarrow> d_file_key d # (case d_text_key d of None \<Rightarrow> [] | Some k \<Rightarrow> [k]));
          chunkIds = map ch_id (filter (\<lambda>c. ch_document_id c = docId) (document_chunks s))
      in s\<lparr>files := (\<lambda>k. if k \<in> set keys then None else files s k),
            vectors := (\<lambda>k. if k \<in> set chunkIds then None else vectors s k),
            document_chunks := filter (\<lambda>c. ch_document_id c \<noteq> docId) (document_chunks s),
            document_tags := filter (\<lambda>r. dt_document_id r \<noteq> docId) (document_tags s),
            documents := filter (\<lambda>d. d_id d \<noteq> docId) (documents s)\<rparr>)"

text \<open>
  The invariant of the usage counter: every tag's \<open>usage_count\<close> is the number of
  \<open>document_tags\<close> rows that reference the tag.
\<close>

definition usage_consistent :: "state \<Rightarrow> bool" where
  "usage_consistent s =
     list_all (\<lambda>t. usage_count t
                    = int (length (filter (\<lambda>r. dt_tag_id r = t_id t) (document_tags s))))
       (tags s)"

section \<open>Retriever: the search routes\<close>

text \<open>
  \<open>SearchRequest\<close>. An absent field is \<open>None\<close>; JavaScript's truthiness makes an empty
  query, an empty list and the limit \<open>0\<close> count as absent too.
\<close>

record search_request =
  q_query :: "string option"
  q_tags :: "string list option"
  q_document_types :: "string list option"
  q_date_from :: "string option"
  q_date_to :: "string option"
  q_limit :: "int option"
  q_offset :: "int option"

definition truthy_str :: "string option \<Rightarrow> string option" where
  "truthy_str x = (case x of Some v \<Rightarrow> if v = [] then None else Some v | None \<Rightarrow> None)"

definition truthy_list :: "string list option \<Rightarrow> string list" where
  "truthy_list x = (case x of Some v \<Rightarrow> v | None \<Rightarrow> [])"

text \<open>\<open>Math.min(body.limit || 20, 100)\<close>\<close>

definition effective_limit :: "search_request \<Rightarrow> int" where
  "effective_limit body =
     min (case q_limit body of Some l \<Rightarrow> if l = 0 then 20 else l | None \<Rightarrow> 20) 100"

text \<open>\<open>body.offset || 0\<close>\<close>

definition effective_offset :: "search_request \<Rightarrow> int" where
  "effective_offset body = (case q_offset body of Some k \<Rightarrow> k | None \<Rightarrow> 0)"

text \<open>\<open>DocumentSearchResult\<close>; a tag is (id, name, category).\<close>

record search_result =
  sr_id :: string
  sr_title :: string
  sr_snippet :: string
  sr_tags :: "(string \<times> string \<times> string option) list"
  sr_relevance_score :: "real option"
  sr_created_at :: string

record search_response =
  resp_documents :: "search_result list"
  resp_total :: nat
  resp_has_more :: bool

text \<open>\<open>SELECT workspace_id FROM workspace_members WHERE user_id = ?\<close>\<close>

definition user_workspaces :: "string \<Rightarrow> state \<Rightarrow> string list" where
  "user_workspaces userId s =
     map fst (filter (\<lambda>(w, u, r). u = userId) (workspace_members s))"

text \<open>
  The tags joined to a document:
  \<open>FROM tags t JOIN document_tags dt ON t.id = dt.tag_id WHERE dt.document_id = ?\<close>
\<close>

definition doc_tags :: "state \<Rightarrow> string \<Rightarrow> (string \<times> string \<times> string option) list" where
  "doc_tags s docId =
     concat (map (\<lambda>t. map (\<lambda>r. (t_id t, t_name t, t_category t))
                         (filter (\<lambda>r. dt_tag_id r = t_id t \<and> dt_document_id r = docId)
                                 (document_tags s)))
                 (tags s))"

text \<open>\<open>t.name IN (...)\<close> over the rows joined to the document.\<close>

definition has_tag_in :: "state \<Rightarrow> string \<Rightarrow> string list \<Rightarrow> bool" where
  "has_tag_in s docId names = list_ex (\<lambda>(i, n, c). n \<in> set names) (doc_tags s docId)"

text \<open>The filters that both searches share: tags, document types, date range.\<close>

definition facet_filters :: "search_request \<Rightarrow> env \<Rightarrow> state \<Rightarrow> document \<Rightarrow> bool" where
  "facet_filters body en s d =
     ((truthy_list (q_tags body) = [] \<or> has_tag_in s (d_id d) (truthy_list (q_tags body)))
      \<and> (truthy_list (q_document_types body) = []
           \<or> list_ex (\<lambda>t. sql_like en (''%'' @ t @ ''%'') (d_mime_type d))
                (truthy_list (q_document_types body)))
      \<and> (case truthy_str (q_date_from body) of None \<Rightarrow> True | Some f \<Rightarrow> f \<le> d_created_at d)
      \<and> (case truthy_str (q_date_to body) of None \<Rightarrow> True | Some t \<Rightarrow> d_created_at d \<le> t))"

text \<open>
  \<open>title LIKE ? OR EXISTS (SELECT 1 FROM document_chunks ... text_content LIKE ?)\<close>
\<close>

definition text_matches :: "search_request \<Rightarrow> env \<Rightarrow> state \<Rightarrow> document \<Rightarrow> bool" where
  "text_matches body en s d =
     (case truthy_str (q_query body) of
        None \<Rightarrow> True
      | Some q \<Rightarrow> sql_like en (''%'' @ q @ ''%'') (d_title d)
                 \<or> list_ex (\<lambda>c. ch_document_id c = d_id d
                                  \<and> sql_like en (''%'' @ q @ ''%'') (text_content c))
                      (document_chunks s))"

text \<open>\<open>LIMIT ? OFFSET ?\<close>: a negative limit is no limit, a negative offset is none.\<close>

definition sql_limit_offset :: "int \<Rightarrow> int \<Rightarrow> 'a list \<Rightarrow> 'a list" where
  "sql_limit_offset n k xs =
     (if n < 0 then drop (nat k) xs else take (nat n) (drop (nat k) xs))"

text \<open>
  \<open>enrichDocuments\<close>: the tags of each document and, as snippet, the first 200
  characters of its first chunk.
\<close>

definition enrich :: "state \<Rightarrow> document \<Rightarrow> search_result" where
  "enrich s d =
     \<lparr>sr_id = d_id d, sr_title = d_title d,
      sr_snippet = (case sort_key chunk_index
                           (filter (\<lambda>c. ch_document_id c = d_id d) (document_chunks s)) of
                      [] \<Rightarrow> [] | c # cs \<Rightarrow> js_prefix 200 (text_content c)),
      sr_tags = doc_tags s (d_id d), sr_relevance_score = None,
      sr_created_at = d_created_at d\<rparr>"

definition enrichDocuments :: "document list \<Rightarrow> state \<Rightarrow> search_result list" where
  "enrichDocuments docs s = map (enrich s) docs"

text \<open>One row for each document identifier: \<open>SELECT DISTINCT\<close>, \<open>GROUP BY d.id\<close>.\<close>

fun one_per_id :: "string list \<Rightarrow> document list \<Rightarrow> document list" where
  "one_per_id seen [] = []"
| "one_per_id seen (d # ds) =
     (if d_id d \<in> set seen then one_per_id seen ds else d # one_per_id (d_id d # seen) ds)"

text \<open>
  The rows of the faceted query before \<open>LIMIT\<close> and \<open>OFFSET\<close>: ready documents of the
  user's workspaces that pass the text match and the filters, newest first.
\<close>

definition faceted_rows :: "search_request \<Rightarrow> string list \<Rightarrow> env \<Rightarrow> state \<Rightarrow> document list" where
  "faceted_rows body workspaceIds en s =
     rev (sort_key d_created_at (one_per_id []
       (filter (\<lambda>d. d_workspace_id d \<in> set workspaceIds \<and> d_status d = StReady
                     \<and> text_matches body en s d \<and> facet_filters body en s d)
               (documents s))))"

text \<open>
  The count query of the faceted search. It repeats the text match and the tag filter,
  not the type and date filters.
\<close>

definition faceted_count :: "search_request \<Rightarrow> string list \<Rightarrow> env \<Rightarrow> state \<Rightarrow> nat" where
  "faceted_count body workspaceIds en s =
     length (remdups (map d_id
       (filter (\<lambda>d. d_workspace_id d \<in> set workspaceIds \<and> d_status d = StReady
                     \<and> text_matches body en s d
                     \<and> (truthy_list (q_tags body) = []
                          \<or> has_tag_in s (d_id d) (truthy_list (q_tags body))))
               (documents s))))"

text \<open>
  \<open>handleFacetedSearch\<close>, after authentication. Any exception becomes the answer
  \<open>500 Search failed\<close>.
\<close>

definition handleFacetedSearch ::
  "search_request \<Rightarrow> string \<Rightarrow> env \<Rightarrow> state \<Rightarrow> (string \<times> nat) + search_response" where
  "handleFacetedSearch body userId en s =
     (case faults en DbSearch of
        Some e \<Rightarrow> Inl (''Search failed'', 500)
      | None \<Rightarrow>
          (let limit = effective_limit body;
               offset = effective_offset body;
               workspaceIds = user_workspaces userId s
           in if workspaceIds = []
              then Inr \<lparr>resp_documents = [], resp_total = 0, resp_has_more = False\<rparr>
              else
                (let results = sql_limit_offset (limit + 1) offset
                                 (faceted_rows body workspaceIds en s)
                 in Inr \<lparr>resp_documents = enrichDocuments (js_slice results 0 limit) s,
                         resp_total = faceted_count body workspaceIds en s,
                         resp_has_more = (int (length results) > limit)\<rparr>)))"

subsection \<open>Combined search\<close>

text \<open>
  The loop over the vector matches: the first match of each document gives its score
  (\<open>match.score || 0\<close>); a match without a document identifier is skipped.
\<close>

fun semantic_scores :: "vmatch list \<Rightarrow> (string \<times> real) list \<Rightarrow> (string \<times> real) list" where
  "semantic_scores [] acc = acc"
| "semantic_scores (m # ms) acc =
     (case truthy_str (vm_document_id m) of
        None \<Rightarrow> semantic_scores ms acc
      | Some docId \<Rightarrow>
          if docId \<in> set (map fst acc) then semantic_scores ms acc
          else semantic_scores ms
                 (acc @ [(docId, case vm_score m of Some x \<Rightarrow> x | None \<Rightarrow> 0)]))"

text \<open>
  The comparator of the final sort: by score when both documents have one, by creation
  date otherwise; descending.
\<close>

definition compare_results :: "env \<Rightarrow> search_result \<Rightarrow> search_result \<Rightarrow> real" where
  "compare_results en a b =
     (case (sr_relevance_score a, sr_relevance_score b) of
        (Some x, Some y) \<Rightarrow> y - x
      | _ \<Rightarrow> real_of_int (date_ms en (sr_created_at b) - date_ms en (sr_created_at a)))"

text \<open>
  \<open>Array.prototype.sort\<close> with a comparator: the stable sort, here as insertion from
  the right.
\<close>

fun insert_by :: "('a \<Rightarrow> 'a \<Rightarrow> real) \<Rightarrow> 'a \<Rightarrow> 'a list \<Rightarrow> 'a list" where
  "insert_by cmp x [] = [x]"
| "insert_by cmp x (y # ys) =
     (if cmp x y \<le> 0 then x # y # ys else y # insert_by cmp x ys)"

definition js_sort :: "('a \<Rightarrow> 'a \<Rightarrow> real) \<Rightarrow> 'a list \<Rightarrow> 'a list" where
  "js_sort cmp xs = foldr (insert_by cmp) xs []"

text \<open>The rows of the filter query of the combined search.\<close>

definition combined_rows ::
  "search_request \<Rightarrow> string list \<Rightarrow> string list \<Rightarrow> env \<Rightarrow> state \<Rightarrow> document list" where
  "combined_rows body workspaceIds semanticDocIds en s =
     one_per_id []
       (filter (\<lambda>d. d_workspace_id d \<in> set workspaceIds \<and> d_status d = StReady
                     \<and> (semanticDocIds = [] \<or> d_id d \<in> set semanticDocIds)
                     \<and> facet_filters body en s d)
               (documents s))"

text \<open>
  The semantic step: the score of each document of the vector matches, in the order of
  the first match; nothing without a query.
\<close>

definition semantic_part :: "search_request \<Rightarrow> string list \<Rightarrow> env \<Rightarrow> (string \<times> real) list" where
  "semantic_part body workspaceIds en =
     (case truthy_str (q_query body) of
        None \<Rightarrow> []
      | Some q \<Rightarrow> semantic_scores
          (vec_query en (ai_embed en q) (effective_limit body * 3) (WsIn workspaceIds)) [])"

text \<open>
  The filtered documents, enriched, each with \<open>semanticScores.get(doc.id)\<close> as its
  relevance score.
\<close>

definition scored_documents ::
  "search_request \<Rightarrow> string list \<Rightarrow> env \<Rightarrow> state \<Rightarrow> search_result list" where
  "scored_documents body workspaceIds en s =
     (let semanticScores = semantic_part body workspaceIds en
      in map (\<lambda>doc. doc\<lparr>sr_relevance_score := map_of semanticScores (sr_id doc)\<rparr>)
           (enrichDocuments
              (combined_rows body workspaceIds (map fst semanticScores) en s) s))"

text \<open>
  \<open>handleCombinedSearch\<close>, after authentication. The request's offset is not read.
\<close>

definition handleCombinedSearch ::
  "search_request \<Rightarrow> string \<Rightarrow> env \<Rightarrow> state \<Rightarrow> (string \<times> nat) + search_response" where
  "handleCombinedSearch body userId en s =
     (let limit = effective_limit body;
          workspaceIds = user_workspaces userId s
      in if faults en DbSearch \<noteq> None then Inl (''Search failed'', 500)
         else if workspaceIds = []
         then Inr \<lparr>resp_documents = [], resp_total = 0, resp_has_more = False\<rparr>
         else if truthy_str (q_query body) \<noteq> None
                 \<and> (faults en AiQueryEmbed \<noteq> None \<or> faults en VecQuery \<noteq> None)
         then Inl (''Search failed'', 500)
         else
           (let sorted_docs = js_sort (compare_results en)
                                (scored_documents body workspaceIds en s)
            in Inr \<lparr>resp_documents = js_slice sorted_docs 0 limit,
                    resp_total = length sorted_docs,
                    resp_has_more = (int (length sorted_docs) > limit)\<rparr>))"

text \<open>A result that carries a relevance score.\<close>

definition scored :: "search_result \<Rightarrow> bool" where
  "scored r = (sr_relevance_score r \<noteq> None)"

text \<open>The identifier is that of a document row whose status is \<open>ready\<close>.\<close>

definition is_ready_document :: "state \<Rightarrow> string \<Rightarrow> bool" where
  "is_ready_document s docId =
     list_ex (\<lambda>d. d_id d = docId \<and> d_status d = StReady) (documents s)"

section \<open>Chat: \<open>retrieveContext\<close>\<close>

text \<open>\<open>ChatSource\<close>\<close>

record chat_source =
  src_document_id :: string
  src_document_title :: string
  src_chunk_id :: string
  src_text_snippet :: string
  src_relevance_score :: real

text \<open>\<open>doc?.title || 'Unknown Document'\<close>\<close>

definition title_or_unknown :: "string option \<Rightarrow> string" where
  "title_or_unknown t = (case truthy_str t of Some v \<Rightarrow> v | None \<Rightarrow> ''Unknown Document'')"

text \<open>\<open>SELECT title FROM documents WHERE id = ?\<close>, \<open>.first()\<close>\<close>

definition select_title :: "state \<Rightarrow> string \<Rightarrow> string option" where
  "select_title s docId = map_option d_title (find (\<lambda>d. d_id d = docId) (documents s))"

text \<open>
  The loop over the matches. \<open>seenDocs\<close> is the set of documents met so far; a match of
  a sixth document is skipped, a further match of a document already met is kept and
  takes the title of that document's first source.
\<close>

fun collect_sources ::
  "env \<Rightarrow> state \<Rightarrow> vmatch list \<Rightarrow> chat_source list \<Rightarrow> string list \<Rightarrow> exn + chat_source list" where
  "collect_sources en s [] sources seenDocs = Inr sources"
| "collect_sources en s (m # ms) sources seenDocs =
     (case truthy_str (vm_document_id m) of
        None \<Rightarrow> collect_sources en s ms sources seenDocs
      | Some docId \<Rightarrow>
          if length seenDocs \<ge> 5 \<and> docId \<notin> set seenDocs
          then collect_sources en s ms sources seenDocs
          else if docId \<notin> set seenDocs
          then (case faults en DbSelectTitle of
                  Some e \<Rightarrow> Inl e
                | None \<Rightarrow>
                    collect_sources en s ms
                      (sources @ [\<lparr>src_document_id = docId,
                          src_document_title = title_or_unknown (select_title s docId),
                          src_chunk_id = vm_id m,
                          src_text_snippet = (case vm_text m of Some t \<Rightarrow> t | None \<Rightarrow> []),
                          src_relevance_score = (case vm_score m of Some x \<Rightarrow> x | None \<Rightarrow> 0)\<rparr>])
                      (seenDocs @ [docId]))
          else collect_sources en s ms
                 (sources @ [\<lparr>src_document_id = docId,
                     src_document_title = title_or_unknown (map_option src_document_title
                        (find (\<lambda>x. src_document_id x = docId) sources)),
                     src_chunk_id = vm_id m,
                     src_text_snippet = (case vm_text m of Some t \<Rightarrow> t | None \<Rightarrow> []),
                     src_relevance_score = (case vm_score m of Some x \<Rightarrow> x | None \<Rightarrow> 0)\<rparr>])
                 seenDocs)"

definition retrieveContext :: "string \<Rightarrow> string \<Rightarrow> env \<Rightarrow> state \<Rightarrow> exn + chat_source list" where
  "retrieveContext query workspaceId en s =
     (case faults en AiQueryEmbed of
        Some e \<Rightarrow> Inl e
      | None \<Rightarrow>
          (case faults en VecQuery of
             Some e \<Rightarrow> Inl e
           | None \<Rightarrow>
               collect_sources en s
                 (vec_query en (ai_embed en query) 10 (WsEq workspaceId)) [] []))"

subsection \<open>What the retrieval is to return, stated on the matches\<close>

text \<open>The elements of a list, each once, in the order of their first occurrence.\<close>

fun first_occurrences :: "string list \<Rightarrow> string list" where
  "first_occurrences [] = []"
| "first_occurrences (x # xs) = x # first_occurrences (removeAll x xs)"

text \<open>The document a match belongs to, when its metadata names one.\<close>

definition match_document :: "vmatch \<Rightarrow> string option" where
  "match_document m = truthy_str (vm_document_id m)"

text \<open>
  The documents whose matches are kept: the first five distinct documents of the
  matches. \<open>kept_documents_from seen\<close> is the same when the documents \<open>seen\<close> are kept
  already.
\<close>

definition kept_documents_from :: "string list \<Rightarrow> vmatch list \<Rightarrow> string list" where
  "kept_documents_from seen ms =
     take 5 (seen @ first_occurrences
                      (filter (\<lambda>d. d \<notin> set seen) (List.map_filter match_document ms)))"

definition kept_documents :: "vmatch list \<Rightarrow> string list" where
  "kept_documents ms = take 5 (first_occurrences (List.map_filter match_document ms))"

definition kept_match :: "string list \<Rightarrow> vmatch \<Rightarrow> bool" where
  "kept_match docs m = (case match_document m of None \<Rightarrow> False | Some d \<Rightarrow> d \<in> set docs)"

text \<open>
  The source of a match: its document with the document's title, the chunk, the text
  of the chunk and the score.
\<close>

definition source_of :: "state \<Rightarrow> vmatch \<Rightarrow> chat_source" where
  "source_of s m =
     \<lparr>src_document_id = (case match_document m of Some d \<Rightarrow> d | None \<Rightarrow> []),
      src_document_title = title_or_unknown
        (select_title s (case match_document m of Some d \<Rightarrow> d | None \<Rightarrow> [])),
      src_chunk_id = vm_id m,
      src_text_snippet = (case vm_text m of Some t \<Rightarrow> t | None \<Rightarrow> []),
      src_relevance_score = (case vm_score m of Some x \<Rightarrow> x | None \<Rightarrow> 0)\<rparr>"

text \<open>
  One source for every match of a kept document, in the order of the matches.
\<close>

definition expected_sources :: "state \<Rightarrow> vmatch list \<Rightarrow> chat_source list" where
  "expected_sources s ms = map (source_of s) (filter (kept_match (kept_documents ms)) ms)"

text \<open>
  What the duplicate query of \<open>uploadFile\<close> tests, on the key columns of a row: the
  workspace and the content hash.
\<close>

definition dup_key :: "string \<Rightarrow> string \<Rightarrow> string \<times> string \<times> string \<times> string \<Rightarrow> bool" where
  "dup_key ws h k = (case k of (i, w, c, t) \<Rightarrow> w = ws \<and> c = h)"

section \<open>A small deployment, for evaluating the functions\<close>

text \<open>
  An environment in which no call rejects, plain text decodes to itself, and the tagging
  model suggests the one tag \<open>invoice\<close>.
\<close>

definition env0 :: env where
  "env0 = \<lparr>faults = (\<lambda>c. None), has_queue = False, now = ''2024-01-01T00:00:00.000Z'',
     uuid = (\<lambda>n. ''uuid-'' @ nat_to_string n), sha256 = (\<lambda>c. ''sha:'' @ c),
     text_decode = (\<lambda>c. c), pdf_text = (\<lambda>c. None), vision = (\<lambda>c. None),
     ai_embed = (\<lambda>t. [0]),
     llm_tags = (\<lambda>names t. [\<lparr>s_name = ''invoice'', s_category = Some ''document_type'',
                                 s_confidence = 1\<rparr>]),
     vec_query = (\<lambda>v k f. []), sql_like = (\<lambda>p t. False), date_ms = (\<lambda>t. 0)\<rparr>"

text \<open>One pending plain-text document \<open>d1\<close> of workspace \<open>w1\<close>, its blob stored.\<close>

definition doc0 :: document where
  "doc0 = \<lparr>d_id = ''d1'', d_workspace_id = ''w1'', d_user_id = ''u1'', d_title = ''a.txt'',
     d_file_key = ''documents/w1/d1/a.txt'', d_text_key = None,
     d_content_hash = ''sha:hello world'', d_mime_type = ''text/plain'',
     d_file_size_bytes = 11, d_status = StPending, d_error_message = None,
     d_created_at = ''2024-01-01T00:00:00.000Z'', d_updated_at = ''2024-01-01T00:00:00.000Z''\<rparr>"

definition s0 :: state where
  "s0 = \<lparr>documents = [doc0], tags = [], document_tags = [], document_chunks = [],
     workspace_members = [(''w1'', ''u1'', ''owner'')],
     files = [''documents/w1/d1/a.txt'' \<mapsto> ''hello world''], vectors = Map.empty,
     processing_queue = [], uuid_count = 0\<rparr>"

definition msg0 :: queue_message where
  "msg0 = \<lparr>m_type = ''document_uploaded'', document_id = ''d1'', workspace_id = ''w1'',
     user_id = ''u1'', file_key = ''documents/w1/d1/a.txt'', mime_type = ''text/plain''\<rparr>"

text \<open>An empty deployment with the workspaces \<open>w1\<close> and \<open>w2\<close> of user \<open>u1\<close>.\<close>

definition s_empty :: state where
  "s_empty = \<lparr>documents = [], tags = [], document_tags = [], document_chunks = [],
     workspace_members = [(''w1'', ''u1'', ''owner''), (''w2'', ''u1'', ''owner'')],
     files = Map.empty, vectors = Map.empty, processing_queue = [], uuid_count = 0\<rparr>"

definition mail0 :: upload_file where
  "mail0 = \<lparr>f_name = ''note.eml'', f_type = ''message/rfc822'', f_content = ''Subject: hi''\<rparr>"

definition file0 :: upload_file where
  "file0 = \<lparr>f_name = ''a.txt'', f_type = ''text/plain'', f_content = ''hello world''\<rparr>"

subsection \<open>A deployment with documents to search\<close>

definition mk_doc :: "string \<Rightarrow> string \<Rightarrow> doc_status \<Rightarrow> document" where
  "mk_doc i created st =
     doc0\<lparr>d_id := i, d_title := i @ ''.txt'', d_created_at := created, d_status := st\<rparr>"

text \<open>
  Three ready documents \<open>a\<close>, \<open>b\<close>, \<open>c\<close> and a pending one \<open>p\<close>, all of workspace \<open>w1\<close>
  and all tagged \<open>vendor:acme\<close>.
\<close>

definition s_search :: state where
  "s_search = s_empty\<lparr>
     documents := [mk_doc ''a'' ''2024-01-01T00:00:00.000Z'' StReady,
                   mk_doc ''b'' ''2024-01-02T00:00:00.000Z'' StReady,
                   mk_doc ''c'' ''2024-01-03T00:00:00.000Z'' StReady,
                   mk_doc ''p'' ''2024-01-04T00:00:00.000Z'' StPending],
     tags := [\<lparr>t_id = ''t1'', t_workspace_id = ''w1'', t_name = ''vendor:acme'',
               t_category = Some ''vendor'', usage_count = 4,
               t_created_at = ''2024-01-01T00:00:00.000Z''\<rparr>],
     document_tags := map (\<lambda>i. \<lparr>dt_document_id = i, dt_tag_id = ''t1'', dt_source = User_added,
                                  dt_confidence = None,
                                  dt_created_at = ''2024-01-01T00:00:00.000Z''\<rparr>)
                          [''a'', ''b'', ''c'', ''p'']\<rparr>"

definition mk_match :: "string \<Rightarrow> string \<Rightarrow> real \<Rightarrow> vmatch" where
  "mk_match i d x = \<lparr>vm_id = i, vm_score = Some x, vm_document_id = Some d, vm_text = Some i\<rparr>"

text \<open>
  The index answers every query with five chunks: one of each document, and a second
  chunk of \<open>a\<close>. Every \<open>LIKE\<close> matches.
\<close>

definition env_search :: env where
  "env_search = env0\<lparr>
     vec_query := (\<lambda>v k f. [mk_match ''p_0'' ''p'' (99 / 100), mk_match ''b_0'' ''b'' (9 / 10),
                             mk_match ''c_0'' ''c'' (7 / 10), mk_match ''a_0'' ''a'' (5 / 10),
                             mk_match ''a_1'' ''a'' (4 / 10)]),
     sql_like := (\<lambda>p t. True)\<rparr>"

text \<open>
  An index that answers with seven chunks of six documents: the second chunk of \<open>d1\<close>
  comes after the chunk of the sixth document.
\<close>

definition env_six :: env where
  "env_six = env0\<lparr>
     vec_query := (\<lambda>v k f. [mk_match ''d1_0'' ''d1'' (9 / 10), mk_match ''d2_0'' ''d2'' (8 / 10),
                             mk_match ''d3_0'' ''d3'' (7 / 10), mk_match ''d4_0'' ''d4'' (6 / 10),
                             mk_match ''d5_0'' ''d5'' (5 / 10), mk_match ''d6_0'' ''d6'' (4 / 10),
                             mk_match ''d1_1'' ''d1'' (3 / 10)])\<rparr>"

text \<open>
  The query \<open>invoice\<close> with the tag filter \<open>vendor:acme\<close>, page size 2, asking for
  the rows from offset 2.
\<close>

definition q_search :: search_request where
  "q_search = \<lparr>q_query = Some ''invoice'', q_tags = Some [''vendor:acme''],
     q_document_types = None, q_date_from = None, q_date_to = None,
     q_limit = Some 2, q_offset = Some 2\<rparr>"

section \<open>Observations of a state, for the properties\<close>

text \<open>\<open>SELECT * FROM documents WHERE id = ?\<close>, \<open>.first()\<close>\<close>

definition get_document :: "state \<Rightarrow> string \<Rightarrow> document option" where
  "get_document s docId = find (\<lambda>d. d_id d = docId) (documents s)"

text \<open>The columns of a document row that identify it and its content.\<close>

definition doc_key :: "document \<Rightarrow> string \<times> string \<times> string \<times> string" where
  "doc_key d = (d_id d, d_workspace_id d, d_content_hash d, d_title d)"

text \<open>An effect keeps an observation when no run of it changes the observed value.\<close>

definition keeps :: "(state \<Rightarrow> 'b) \<Rightarrow> 'a effect \<Rightarrow> bool" where
  "keeps F m = (\<forall>s. F (snd (m s)) = F s)"

text \<open>
  An effect ignores the queue when it neither reads nor writes \<open>PROCESSING_QUEUE\<close>: run
  with another queue it raises or returns the same, and leaves the same state, that
  queue apart.
\<close>

definition ignores_queue :: "'a effect \<Rightarrow> bool" where
  "ignores_queue m =
     (\<forall>s q. m (s\<lparr>processing_queue := q\<rparr>)
             = (fst (m s), (snd (m s))\<lparr>processing_queue := q\<rparr>))"

subsection \<open>A document of five chunks, and an embedding model that fails on the third\<close>

text \<open>1400 words; the trailing space leaves an empty 1401st word.\<close>

definition text5 :: string where
  "text5 = concat (replicate 1400 ''w '')"

definition s5 :: state where
  "s5 = s0\<lparr>files := [''documents/w1/d1/a.txt'' \<mapsto> text5]\<rparr>"

definition env_fail :: env where
  "env_fail = env0\<lparr>faults := (\<lambda>c. if c = AiEmbed 2 then Some (JsError ''embedding failed'')
                                  else None)\<rparr>"

subsection \<open>A database that rejects the write of the error status\<close>

text \<open>
  The embedding call rejects on the first chunk; in \<open>env_down\<close> the \<open>UPDATE\<close> of the
  \<open>catch\<close> block rejects too, in \<open>env_silent\<close> the embedding exception has the empty
  message.
\<close>

definition env_down :: env where
  "env_down = env0\<lparr>faults := (\<lambda>c. if c = AiEmbed 0 then Some (JsError ''embedding failed'')
                                  else if c = DbSetError then Some (JsError ''db down'')
                                  else None)\<rparr>"

definition env_silent :: env where
  "env_silent = env0\<lparr>faults := (\<lambda>c. if c = AiEmbed 0 then Some (JsError []) else None)\<rparr>"

section \<open>Chunker: properties\<close>

lemma js_split_ws_empty: "js_split_ws [] = [[]]"
  by (simp add: js_split_ws_def)

text \<open>
  Claim C6. The claim says that chunking the empty text yields zero chunks. The code
  splits the empty text into one word, the empty string, so \<open>chunkText('', 512, 64)\<close>
  returns one chunk, with empty text and token count \<open>ceil(1 / 0.75) = 2\<close>.
\<close>

theorem chunkText_empty_text_one_chunk:
  "chunkText [] 512 64 = Some [\<lparr>c_text = [], tokenCount = 2\<rparr>]"
  by code_simp

section \<open>Ingestion pipeline: properties\<close>

text \<open>
  Claim C3. The claim says that a second run of the pipeline on the same document is
  idempotent. On the deployment \<open>s0\<close> the first run ends with the document \<open>ready\<close>; the
  second run stops at its first chunk insert, which the primary key of
  \<open>document_chunks\<close> rejects, and leaves the same document in status \<open>error\<close> with that
  message. The chunk rows, the tag associations and the usage counters are those of the
  first run.
\<close>

theorem processDocument_second_run_errors:
  "map d_status (documents (snd (processDocument msg0 env0 s0))) = [StReady]
   \<and> map d_status (documents (snd (processDocument msg0 env0
         (snd (processDocument msg0 env0 s0))))) = [StError]
   \<and> map d_error_message (documents (snd (processDocument msg0 env0
         (snd (processDocument msg0 env0 s0)))))
       = [Some ''D1_ERROR: UNIQUE constraint failed: document_chunks.id'']
   \<and> map ch_id (document_chunks (snd (processDocument msg0 env0
         (snd (processDocument msg0 env0 s0)))))
       = map ch_id (document_chunks (snd (processDocument msg0 env0 s0)))
   \<and> document_tags (snd (processDocument msg0 env0 (snd (processDocument msg0 env0 s0))))
       = document_tags (snd (processDocument msg0 env0 s0))
   \<and> map usage_count (tags (snd (processDocument msg0 env0
         (snd (processDocument msg0 env0 s0)))))
       = map usage_count (tags (snd (processDocument msg0 env0 s0)))"
  by code_simp

text \<open>
  Claim C4. The claim says that after ingestion auto-tagging every tag's usage count is
  the number of associations that reference it. On \<open>s0\<close> the counters are consistent;
  the pipeline returns, having created the tag with count \<open>0\<close> and one association to
  it, and never increments the counter.
\<close>

theorem processDocument_breaks_usage_count:
  "usage_consistent s0
   \<and> fst (processDocument msg0 env0 s0) = Inr ()
   \<and> map usage_count (tags (snd (processDocument msg0 env0 s0))) = [0]
   \<and> length (document_tags (snd (processDocument msg0 env0 s0))) = 1
   \<and> \<not> usage_consistent (snd (processDocument msg0 env0 s0))"
  by code_simp

section \<open>Retriever: properties\<close>

lemma set_js_slice_subset: "set (js_slice xs a b) \<subseteq> set xs"
  unfolding js_slice_def Let_def
  by (meson set_take_subset set_drop_subset subset_trans)

lemma length_js_slice_0:
  "0 \<le> n \<Longrightarrow> length (js_slice xs 0 n) = min (length xs) (nat n)"
  by (auto simp: js_slice_def Let_def min_def)

lemma sorted_wrt_js_slice:
  "sorted_wrt R xs \<Longrightarrow> sorted_wrt R (js_slice xs a b)"
  unfolding js_slice_def Let_def by (intro sorted_wrt_take sorted_wrt_drop)

lemma set_sql_limit_offset_subset: "set (sql_limit_offset n k xs) \<subseteq> set xs"
  unfolding sql_limit_offset_def
  by (auto dest: in_set_takeD in_set_dropD)

lemma set_one_per_id_subset: "set (one_per_id seen ds) \<subseteq> set ds"
  by (induction seen ds rule: one_per_id.induct) auto

lemma set_insert_by: "set (insert_by cmp x ys) = insert x (set ys)"
  by (induction ys) auto

lemma set_js_sort: "set (js_sort cmp xs) = set xs"
  by (induction xs) (auto simp: js_sort_def set_insert_by)

lemma length_insert_by: "length (insert_by cmp x ys) = Suc (length ys)"
  by (induction ys) auto

lemma length_js_sort: "length (js_sort cmp xs) = length xs"
  by (induction xs) (auto simp: js_sort_def length_insert_by)

text \<open>
  Where the comparator is the difference of a key, as it is on results that all carry a
  score or all carry none, the sort orders by that key, descending.
\<close>

lemma sorted_insert_by_key:
  assumes "\<forall>a\<in>insert x (set ys). \<forall>b\<in>insert x (set ys). cmp a b = key b - key a"
    and "sorted_wrt (\<lambda>a b. key b \<le> key a) ys"
  shows "sorted_wrt (\<lambda>a b. key b \<le> (key a :: real)) (insert_by cmp x ys)"
  using assms
proof (induction ys)
  case Nil
  then show ?case by simp
next
  case (Cons y ys)
  show ?case
  proof (cases "cmp x y \<le> 0")
    case True
    then have "key y \<le> key x" using Cons.prems(1) by simp
    then show ?thesis using True Cons.prems(2) by (auto intro: order_trans)
  next
    case False
    then have xy: "key x \<le> key y" using Cons.prems(1) by simp
    have ih: "sorted_wrt (\<lambda>a b. key b \<le> key a) (insert_by cmp x ys)"
      using Cons.IH Cons.prems by auto
    show ?thesis using False xy ih Cons.prems(2) by (auto simp: set_insert_by)
  qed
qed

lemma sorted_js_sort_key:
  assumes "\<forall>a\<in>set xs. \<forall>b\<in>set xs. cmp a b = key b - key a"
  shows "sorted_wrt (\<lambda>a b. key b \<le> (key a :: real)) (js_sort cmp xs)"
  using assms
proof (induction xs)
  case Nil
  then show ?case by (simp add: js_sort_def)
next
  case (Cons x xs)
  have ih: "sorted_wrt (\<lambda>a b. key b \<le> key a) (js_sort cmp xs)"
    using Cons by auto
  have "sorted_wrt (\<lambda>a b. key b \<le> key a) (insert_by cmp x (js_sort cmp xs))"
    by (rule sorted_insert_by_key) (use Cons.prems ih in \<open>auto simp: set_js_sort\<close>)
  then show ?case by (simp add: js_sort_def)
qed

lemma faceted_rows_ready:
  "d \<in> set (faceted_rows body ws en s) \<Longrightarrow> d \<in> set (documents s) \<and> d_status d = StReady"
  unfolding faceted_rows_def using set_one_per_id_subset by fastforce

lemma combined_rows_ready:
  "d \<in> set (combined_rows body ws sem en s) \<Longrightarrow> d \<in> set (documents s) \<and> d_status d = StReady"
  unfolding combined_rows_def using set_one_per_id_subset by fastforce

lemma sr_id_enrich: "sr_id (enrich s d) = d_id d"
  by (simp add: enrich_def)

lemma faceted_ready:
  assumes "handleFacetedSearch body userId en s = Inr res" and "r \<in> set (resp_documents res)"
  shows "is_ready_document s (sr_id r)"
proof -
  let ?ws = "user_workspaces userId s"
  let ?results = "sql_limit_offset (effective_limit body + 1) (effective_offset body)
                    (faceted_rows body ?ws en s)"
  from assms have "r \<in> set (enrichDocuments (js_slice ?results 0 (effective_limit body)) s)"
    by (auto simp: handleFacetedSearch_def Let_def split: option.splits if_splits)
  then obtain d where d: "d \<in> set (js_slice ?results 0 (effective_limit body))"
    and r: "r = enrich s d"
    by (auto simp: enrichDocuments_def)
  from d have "d \<in> set (faceted_rows body ?ws en s)"
    by (meson subsetD set_js_slice_subset set_sql_limit_offset_subset)
  then have "d \<in> set (documents s) \<and> d_status d = StReady" by (rule faceted_rows_ready)
  then show ?thesis using r by (auto simp: is_ready_document_def list_ex_iff sr_id_enrich)
qed

lemma combined_documents:
  assumes "handleCombinedSearch body userId en s = Inr res"
  shows "resp_documents res = [] \<or> resp_documents res
     = js_slice (js_sort (compare_results en)
         (scored_documents body (user_workspaces userId s) en s)) 0 (effective_limit body)"
  using assms by (auto simp: handleCombinedSearch_def Let_def split: if_splits)

lemma combined_results_from_scored:
  assumes "handleCombinedSearch body userId en s = Inr res" and "r \<in> set (resp_documents res)"
  shows "r \<in> set (scored_documents body (user_workspaces userId s) en s)"
  using combined_documents[OF assms(1)] assms(2)
  by (metis empty_iff list.set(1) subsetD set_js_slice_subset set_js_sort)

lemma scored_documents_row:
  assumes "r \<in> set (scored_documents body ws en s)"
  shows "\<exists>d \<in> set (filter (\<lambda>d. d_workspace_id d \<in> set ws \<and> d_status d = StReady
                     \<and> (map fst (semantic_part body ws en) = []
                          \<or> d_id d \<in> set (map fst (semantic_part body ws en)))
                     \<and> facet_filters body en s d) (documents s)).
           r = (enrich s d)\<lparr>sr_relevance_score := map_of (semantic_part body ws en) (d_id d)\<rparr>"
proof -
  from assms obtain d
    where d: "d \<in> set (combined_rows body ws (map fst (semantic_part body ws en)) en s)"
      and r: "r = (enrich s d)\<lparr>sr_relevance_score := map_of (semantic_part body ws en) (d_id d)\<rparr>"
    by (auto simp: scored_documents_def Let_def enrichDocuments_def enrich_def)
  from d show ?thesis
    unfolding combined_rows_def using set_one_per_id_subset[of "[]"] r by blast
qed

lemma combined_ready:
  assumes "handleCombinedSearch body userId en s = Inr res" and "r \<in> set (resp_documents res)"
  shows "is_ready_document s (sr_id r)"
proof -
  from scored_documents_row[OF combined_results_from_scored[OF assms]]
  obtain d where "d \<in> set (documents s)" "d_status d = StReady" "sr_id r = d_id d"
    by (auto simp: enrich_def)
  then show ?thesis by (auto simp: is_ready_document_def list_ex_iff)
qed

text \<open>
  Claim C10. Every document that the faceted search or the combined search returns is
  a document row with status \<open>ready\<close>: pending, processing and failed documents never
  appear in these results.
\<close>

theorem search_results_are_ready:
  "(handleFacetedSearch body userId en s = Inr res
      \<longrightarrow> (\<forall>r\<in>set (resp_documents res). is_ready_document s (sr_id r)))
   \<and> (handleCombinedSearch body userId en s = Inr res'
      \<longrightarrow> (\<forall>r\<in>set (resp_documents res'). is_ready_document s (sr_id r)))"
  using faceted_ready combined_ready by blast

theorem search_results_are_ready_witness:
  "handleFacetedSearch q_search ''u1'' env_search s_search
     = Inr (projr (handleFacetedSearch q_search ''u1'' env_search s_search))
   \<and> handleCombinedSearch q_search ''u1'' env_search s_search
     = Inr (projr (handleCombinedSearch q_search ''u1'' env_search s_search))
   \<and> map sr_id (resp_documents (projr (handleFacetedSearch q_search ''u1'' env_search s_search)))
     = [''a'']
   \<and> map sr_id (resp_documents (projr (handleCombinedSearch q_search ''u1'' env_search s_search)))
     = [''b'', ''c'']
   \<and> list_all (\<lambda>r. is_ready_document s_search (sr_id r))
       (resp_documents (projr (handleFacetedSearch q_search ''u1'' env_search s_search)))
   \<and> list_all (\<lambda>r. is_ready_document s_search (sr_id r))
       (resp_documents (projr (handleCombinedSearch q_search ''u1'' env_search s_search)))"
proof -
  have f: "handleFacetedSearch q_search ''u1'' env_search s_search
     = Inr (projr (handleFacetedSearch q_search ''u1'' env_search s_search))"
    by code_simp
  have c: "handleCombinedSearch q_search ''u1'' env_search s_search
     = Inr (projr (handleCombinedSearch q_search ''u1'' env_search s_search))"
    by code_simp
  have ids: "map sr_id (resp_documents (projr (handleFacetedSearch q_search ''u1'' env_search s_search)))
     = [''a'']"
    "map sr_id (resp_documents (projr (handleCombinedSearch q_search ''u1'' env_search s_search)))
     = [''b'', ''c'']"
    by code_simp+
  from search_results_are_ready[of q_search "''u1''" env_search s_search
      "projr (handleFacetedSearch q_search ''u1'' env_search s_search)"
      "projr (handleCombinedSearch q_search ''u1'' env_search s_search)"] f c
  have "list_all (\<lambda>r. is_ready_document s_search (sr_id r))
       (resp_documents (projr (handleFacetedSearch q_search ''u1'' env_search s_search)))"
    and "list_all (\<lambda>r. is_ready_document s_search (sr_id r))
       (resp_documents (projr (handleCombinedSearch q_search ''u1'' env_search s_search)))"
    by (simp_all add: list_all_iff)
  then show ?thesis using f c ids by blast
qed

lemma faceted_has_more:
  assumes "1 \<le> effective_limit body" and "0 \<le> effective_offset body"
    and "handleFacetedSearch body userId en s = Inr res"
  shows "resp_has_more res
     = (int (length (faceted_rows body (user_workspaces userId s) en s))
          > effective_offset body + effective_limit body)"
proof (cases "user_workspaces userId s = []")
  case True
  then show ?thesis using assms
    by (auto simp: handleFacetedSearch_def faceted_rows_def split: option.splits)
next
  case False
  then show ?thesis using assms
    by (auto simp: handleFacetedSearch_def Let_def sql_limit_offset_def split: option.splits)
qed

lemma js_slice_0: "0 \<le> n \<Longrightarrow> js_slice xs 0 n = take (nat n) xs"
  by (auto simp: js_slice_def Let_def min_def)

lemma faceted_documents:
  assumes "handleFacetedSearch body userId en s = Inr res"
    and "user_workspaces userId s \<noteq> []"
  shows "resp_documents res
     = enrichDocuments (js_slice (sql_limit_offset (effective_limit body + 1)
         (effective_offset body) (faceted_rows body (user_workspaces userId s) en s))
         0 (effective_limit body)) s"
  using assms by (auto simp: handleFacetedSearch_def Let_def split: option.splits)

lemma faceted_page:
  assumes "1 \<le> effective_limit body"
    and "handleFacetedSearch body userId en s = Inr res"
  shows "map sr_id (resp_documents res)
     = map d_id (take (nat (effective_limit body)) (drop (nat (effective_offset body))
         (faceted_rows body (user_workspaces userId s) en s)))"
proof (cases "user_workspaces userId s = []")
  case True
  then have "resp_documents res = []" and "faceted_rows body (user_workspaces userId s) en s = []"
    using assms(2) by (auto simp: handleFacetedSearch_def faceted_rows_def split: option.splits)
  then show ?thesis by simp
next
  case False
  let ?rows = "drop (nat (effective_offset body)) (faceted_rows body (user_workspaces userId s) en s)"
  have "js_slice (sql_limit_offset (effective_limit body + 1) (effective_offset body)
          (faceted_rows body (user_workspaces userId s) en s)) 0 (effective_limit body)
        = take (nat (effective_limit body)) (take (nat (effective_limit body + 1)) ?rows)"
    using assms(1) by (simp add: js_slice_0 sql_limit_offset_def)
  also have "\<dots> = take (nat (effective_limit body)) ?rows"
    using assms(1) by (simp add: min_def)
  finally show ?thesis
    using faceted_documents[OF assms(2) False]
    by (simp add: enrichDocuments_def sr_id_enrich comp_def)
qed

lemma combined_has_more:
  assumes "handleCombinedSearch body userId en s = Inr res" and "1 \<le> effective_limit body"
  shows "resp_has_more res = (int (resp_total res) > effective_limit body)"
  using assms by (auto simp: handleCombinedSearch_def Let_def split: if_splits)

lemma combined_first_page:
  assumes "handleCombinedSearch body userId en s = Inr res" and "1 \<le> effective_limit body"
  shows "length (resp_documents res) = min (resp_total res) (nat (effective_limit body))"
  using assms by (auto simp: handleCombinedSearch_def Let_def length_js_slice_0 split: if_splits)

text \<open>
  The total of the combined search is the number of all rows of its filter query, and
  no field of its answer depends on the request's offset.
\<close>

lemma combined_total_is_all_rows:
  assumes "handleCombinedSearch body userId en s = Inr res"
  shows "resp_total res
     = length (combined_rows body (user_workspaces userId s)
         (map fst (semantic_part body (user_workspaces userId s) en)) en s)"
proof (cases "user_workspaces userId s = []")
  case True
  then show ?thesis using assms
    by (auto simp: handleCombinedSearch_def Let_def combined_rows_def split: if_splits)
next
  case False
  then show ?thesis using assms
    by (auto simp: handleCombinedSearch_def Let_def length_js_sort scored_documents_def
        enrichDocuments_def split: if_splits)
qed



lemma effective_limit_ignores_offset:
  "effective_limit (body\<lparr>q_offset := k\<rparr>) = effective_limit body"
  by (simp add: effective_limit_def)

lemma semantic_part_ignores_offset:
  "semantic_part (body\<lparr>q_offset := k\<rparr>) ws en = semantic_part body ws en"
  by (simp add: semantic_part_def effective_limit_ignores_offset cong: option.case_cong)

lemma facet_filters_ignores_offset:
  "facet_filters (body\<lparr>q_offset := k\<rparr>) en s d = facet_filters body en s d"
  by (simp add: facet_filters_def)

lemma combined_rows_ignores_offset:
  "combined_rows (body\<lparr>q_offset := k\<rparr>) ws ids en s = combined_rows body ws ids en s"
  by (simp add: combined_rows_def facet_filters_ignores_offset)

lemma scored_documents_ignores_offset:
  "scored_documents (body\<lparr>q_offset := k\<rparr>) ws en s = scored_documents body ws en s"
  by (simp add: scored_documents_def semantic_part_ignores_offset combined_rows_ignores_offset)

lemma handleCombinedSearch_ignores_offset:
  "handleCombinedSearch (body\<lparr>q_offset := k\<rparr>) userId en s
     = handleCombinedSearch body userId en s"
  by (simp add: handleCombinedSearch_def Let_def effective_limit_ignores_offset
      scored_documents_ignores_offset cong: if_cong)

text \<open>
  Claim C9. The claim says that every paginated search answers \<open>has_more\<close> exactly when
  \<open>N > O + P\<close>. The faceted search does (lemmas \<open>faceted_has_more\<close> and
  \<open>faceted_page\<close>). The combined search never reads the offset of the request, though
  the request type declares it and the client sends it: with three matching documents,
  page size 2 and offset 2 it answers \<open>has_more = true\<close>, while \<open>3 > 2 + 2\<close> is false.
\<close>

theorem combined_has_more_ignores_offset:
  "(case handleCombinedSearch q_search ''u1'' env_search s_search of
      Inr res \<Rightarrow> resp_total res = 3 \<and> resp_has_more res
    | Inl e \<Rightarrow> False)
   \<and> effective_limit q_search = 2 \<and> effective_offset q_search = 2
   \<and> \<not> ((3::int) > effective_offset q_search + effective_limit q_search)"
  by code_simp

theorem combined_has_more_ignores_offset_witness:
  "truthy_str (q_query q_search) = Some ''invoice''
   \<and> faults env_search DbSearch = None \<and> faults env_search AiQueryEmbed = None
   \<and> faults env_search VecQuery = None
   \<and> user_workspaces ''u1'' s_search = [''w1'', ''w2'']
   \<and> handleCombinedSearch q_search ''u1'' env_search s_search
     = Inr (projr (handleCombinedSearch q_search ''u1'' env_search s_search))
   \<and> resp_total (projr (handleCombinedSearch q_search ''u1'' env_search s_search)) = 3
   \<and> resp_has_more (projr (handleCombinedSearch q_search ''u1'' env_search s_search))
   \<and> \<not> ((3::int) > effective_offset q_search + effective_limit q_search)"
proof -
  have q: "truthy_str (q_query q_search) = Some ''invoice''"
    by (simp add: truthy_str_def q_search_def)
  have f: "faults env_search DbSearch = None" "faults env_search AiQueryEmbed = None"
    "faults env_search VecQuery = None"
    by (simp_all add: env_search_def env0_def)
  have w: "user_workspaces ''u1'' s_search = [''w1'', ''w2'']"
    by (simp add: user_workspaces_def s_search_def s_empty_def)
  have r: "handleCombinedSearch q_search ''u1'' env_search s_search
     = Inr (projr (handleCombinedSearch q_search ''u1'' env_search s_search))"
    by code_simp
  from combined_has_more_ignores_offset r
  have "resp_total (projr (handleCombinedSearch q_search ''u1'' env_search s_search)) = 3
     \<and> resp_has_more (projr (handleCombinedSearch q_search ''u1'' env_search s_search))
     \<and> \<not> ((3::int) > effective_offset q_search + effective_limit q_search)"
    by (cases "handleCombinedSearch q_search ''u1'' env_search s_search") simp_all
  then show ?thesis using q f w r by blast
qed

text \<open>
  On the same request the faceted search returns the third row alone and answers
  \<open>has_more = false\<close>; the combined search returns the first two documents, as it does
  for every offset.
\<close>

lemma faceted_and_combined_at_offset_2:
  "(case handleFacetedSearch q_search ''u1'' env_search s_search of
      Inr res \<Rightarrow> map sr_id (resp_documents res) = [''a''] \<and> \<not> resp_has_more res
    | Inl e \<Rightarrow> False)
   \<and> (case handleCombinedSearch q_search ''u1'' env_search s_search of
      Inr res \<Rightarrow> map sr_id (resp_documents res) = [''b'', ''c'']
    | Inl e \<Rightarrow> False)"
  by code_simp

lemma scored_documents_homogeneous:
  "(\<forall>r\<in>set (scored_documents body ws en s). scored r)
   \<or> (\<forall>r\<in>set (scored_documents body ws en s). \<not> scored r)"
proof (cases "semantic_part body ws en = []")
  case True
  then show ?thesis by (simp add: scored_documents_def scored_def)
next
  case False
  have "scored r" if "r \<in> set (scored_documents body ws en s)" for r
  proof -
    from scored_documents_row[OF that] False obtain d
      where "d_id d \<in> set (map fst (semantic_part body ws en))"
        and r: "r = (enrich s d)\<lparr>sr_relevance_score := map_of (semantic_part body ws en) (d_id d)\<rparr>"
      by auto
    then have "map_of (semantic_part body ws en) (d_id d) \<noteq> None"
      by (simp add: map_of_eq_None_iff)
    then show ?thesis using r by (simp add: scored_def)
  qed
  then show ?thesis by blast
qed

lemma scored_documents_tagged:
  assumes "r \<in> set (scored_documents body ws en s)" and "truthy_list (q_tags body) \<noteq> []"
  shows "has_tag_in s (sr_id r) (truthy_list (q_tags body))"
proof -
  from scored_documents_row[OF assms(1)] obtain d
    where "facet_filters body en s d" and "sr_id r = d_id d"
    by (auto simp: enrich_def)
  then show ?thesis using assms(2) by (simp add: facet_filters_def)
qed

lemma combined_sorted_by_score:
  assumes "\<forall>r\<in>set xs. scored r"
  shows "sorted_wrt (\<lambda>a b. the (sr_relevance_score b) \<le> the (sr_relevance_score a))
           (js_sort (compare_results en) xs)"
proof (rule sorted_js_sort_key)
  show "\<forall>a\<in>set xs. \<forall>b\<in>set xs.
          compare_results en a b = the (sr_relevance_score b) - the (sr_relevance_score a)"
    using assms by (fastforce simp: compare_results_def scored_def split: option.splits)
qed

lemma combined_sorted_by_date:
  assumes "\<forall>r\<in>set xs. \<not> scored r"
  shows "sorted_wrt (\<lambda>a b. date_ms en (sr_created_at b) \<le> date_ms en (sr_created_at a))
           (js_sort (compare_results en) xs)"
proof -
  have "\<forall>a\<in>set xs. \<forall>b\<in>set xs.
          compare_results en a b
            = real_of_int (date_ms en (sr_created_at b)) - real_of_int (date_ms en (sr_created_at a))"
    using assms by (auto simp: compare_results_def scored_def)
  then have "sorted_wrt (\<lambda>a b. real_of_int (date_ms en (sr_created_at b))
                               \<le> real_of_int (date_ms en (sr_created_at a)))
               (js_sort (compare_results en) xs)"
    by (rule sorted_js_sort_key)
  then show ?thesis by simp
qed

text \<open>
  Claim C2. When the combined search returns with a tag filter given, every returned
  document carries one of the filter's tags; the documents with a relevance score are in
  descending order of score, those without one in descending order of creation date,
  and no document without a score stands before one with a score (the list is its
  scored part followed by its unscored part). The results of one search in fact all
  carry a score or all carry none.
\<close>

theorem combined_search_filter_and_order:
  assumes "handleCombinedSearch body userId en s = Inr res"
    and "truthy_list (q_tags body) \<noteq> []"
  shows "(\<forall>r\<in>set (resp_documents res). has_tag_in s (sr_id r) (truthy_list (q_tags body)))
    \<and> sorted_wrt (\<lambda>a b. the (sr_relevance_score b) \<le> the (sr_relevance_score a))
         (filter scored (resp_documents res))
    \<and> sorted_wrt (\<lambda>a b. date_ms en (sr_created_at b) \<le> date_ms en (sr_created_at a))
         (filter (\<lambda>r. \<not> scored r) (resp_documents res))
    \<and> resp_documents res
         = filter scored (resp_documents res) @ filter (\<lambda>r. \<not> scored r) (resp_documents res)"
proof -
  let ?xs = "scored_documents body (user_workspaces userId s) en s"
  have tagged: "\<forall>r\<in>set (resp_documents res). has_tag_in s (sr_id r) (truthy_list (q_tags body))"
    using combined_results_from_scored[OF assms(1)] scored_documents_tagged[OF _ assms(2)]
    by blast
  have sub: "set (resp_documents res) \<subseteq> set ?xs"
    using combined_results_from_scored[OF assms(1)] by blast
  consider (empty) "resp_documents res = []"
    | (page) "resp_documents res
        = js_slice (js_sort (compare_results en) ?xs) 0 (effective_limit body)"
    using combined_documents[OF assms(1)] by blast
  then show ?thesis
  proof cases
    case empty
    then show ?thesis by simp
  next
    case page
    from scored_documents_homogeneous[of body "user_workspaces userId s" en s]
    show ?thesis
    proof
      assume all: "\<forall>r\<in>set ?xs. scored r"
      then have f: "filter scored (resp_documents res) = resp_documents res"
        and g: "filter (\<lambda>r. \<not> scored r) (resp_documents res) = []"
        using sub by (auto simp: filter_empty_conv filter_id_conv)
      have "sorted_wrt (\<lambda>a b. the (sr_relevance_score b) \<le> the (sr_relevance_score a))
              (resp_documents res)"
        unfolding page by (intro sorted_wrt_js_slice combined_sorted_by_score all)
      then show ?thesis using tagged f g by simp
    next
      assume none: "\<forall>r\<in>set ?xs. \<not> scored r"
      then have f: "filter scored (resp_documents res) = []"
        and g: "filter (\<lambda>r. \<not> scored r) (resp_documents res) = resp_documents res"
        using sub by (auto simp: filter_empty_conv filter_id_conv)
      have "sorted_wrt (\<lambda>a b. date_ms en (sr_created_at b) \<le> date_ms en (sr_created_at a))
              (resp_documents res)"
        unfolding page by (intro sorted_wrt_js_slice combined_sorted_by_date none)
      then show ?thesis using tagged f g by simp
    qed
  qed
qed

theorem combined_search_filter_and_order_witness:
  "handleCombinedSearch q_search ''u1'' env_search s_search
     = Inr (projr (handleCombinedSearch q_search ''u1'' env_search s_search))
   \<and> truthy_str (q_query q_search) = Some ''invoice''
   \<and> truthy_list (q_tags q_search) = [''vendor:acme'']
   \<and> map sr_relevance_score
        (resp_documents (projr (handleCombinedSearch q_search ''u1'' env_search s_search)))
     = [Some (9 / 10), Some (7 / 10)]
   \<and> list_all (\<lambda>r. has_tag_in s_search (sr_id r) (truthy_list (q_tags q_search)))
        (resp_documents (projr (handleCombinedSearch q_search ''u1'' env_search s_search)))
   \<and> sorted_wrt (\<lambda>a b. the (sr_relevance_score b) \<le> the (sr_relevance_score a))
        (filter scored
          (resp_documents (projr (handleCombinedSearch q_search ''u1'' env_search s_search))))"
proof -
  have c: "handleCombinedSearch q_search ''u1'' env_search s_search
     = Inr (projr (handleCombinedSearch q_search ''u1'' env_search s_search))"
    by code_simp
  have q: "truthy_str (q_query q_search) = Some ''invoice''"
    and t: "truthy_list (q_tags q_search) = [''vendor:acme'']"
    by code_simp+
  have t': "truthy_list (q_tags q_search) \<noteq> []" using t by simp
  have v: "map sr_relevance_score
        (resp_documents (projr (handleCombinedSearch q_search ''u1'' env_search s_search)))
     = [Some (9 / 10), Some (7 / 10)]"
    by code_simp
  from combined_search_filter_and_order[OF c t']
  have "list_all (\<lambda>r. has_tag_in s_search (sr_id r) (truthy_list (q_tags q_search)))
        (resp_documents (projr (handleCombinedSearch q_search ''u1'' env_search s_search)))"
    and "sorted_wrt (\<lambda>a b. the (sr_relevance_score b) \<le> the (sr_relevance_score a))
        (filter scored
          (resp_documents (projr (handleCombinedSearch q_search ''u1'' env_search s_search))))"
    by (simp_all add: list_all_iff)
  then show ?thesis using c q t v by blast
qed

section \<open>Chat: properties\<close>

lemma title_or_unknown_nonempty: "title_or_unknown t \<noteq> []"
  by (auto simp: title_or_unknown_def truthy_str_def split: option.splits if_splits)

lemma title_or_unknown_idem: "title_or_unknown (Some (title_or_unknown t)) = title_or_unknown t"
  using title_or_unknown_nonempty[of t]
  by (simp add: title_or_unknown_def[of "Some _"] truthy_str_def)

text \<open>
  The loop keeps this invariant: the documents of the sources are the documents seen,
  at most five, and every source carries the title of its document.
\<close>

lemma collect_sources_inv:
  assumes "collect_sources en s ms sources seen = Inr srcs"
    and "set (map src_document_id sources) = set seen" and "distinct seen"
    and "length seen \<le> 5"
    and "\<forall>x\<in>set sources.
           src_document_title x = title_or_unknown (select_title s (src_document_id x))"
  shows "\<exists>seen'. set (map src_document_id srcs) = set seen' \<and> distinct seen'
           \<and> length seen' \<le> 5
           \<and> (\<forall>x\<in>set srcs.
                 src_document_title x = title_or_unknown (select_title s (src_document_id x)))"
  using assms
proof (induction ms arbitrary: sources seen)
  case Nil
  then show ?case by auto
next
  case (Cons m ms)
  show ?case
  proof (cases "truthy_str (vm_document_id m)")
    case None
    then have "collect_sources en s ms sources seen = Inr srcs" using Cons.prems(1) by simp
    then show ?thesis using Cons.IH Cons.prems(2-5) by blast
  next
    case (Some docId)
    show ?thesis
    proof (cases "docId \<in> set seen")
      case True
      then have "docId \<in> src_document_id ` set sources"
        using Cons.prems(2) by simp
      then have "find (\<lambda>x. src_document_id x = docId) sources \<noteq> None"
        by (auto simp: find_None_iff)
      then obtain x0 where x0: "find (\<lambda>x. src_document_id x = docId) sources = Some x0"
        by blast
      then have "x0 \<in> set sources" "src_document_id x0 = docId"
        by (auto simp: find_Some_iff in_set_conv_nth)
      then have t: "src_document_title x0 = title_or_unknown (select_title s docId)"
        using Cons.prems(5) by auto
      let ?new = "\<lparr>src_document_id = docId,
                     src_document_title = title_or_unknown (map_option src_document_title
                        (find (\<lambda>x. src_document_id x = docId) sources)),
                     src_chunk_id = vm_id m,
                     src_text_snippet = (case vm_text m of Some t \<Rightarrow> t | None \<Rightarrow> []),
                     src_relevance_score = (case vm_score m of Some x \<Rightarrow> x | None \<Rightarrow> 0)\<rparr>"
      have run: "collect_sources en s ms (sources @ [?new]) seen = Inr srcs"
        using Cons.prems(1) Some True by simp
      have a: "set (map src_document_id (sources @ [?new])) = set seen"
        using Cons.prems(2) True by auto
      have b: "\<forall>x\<in>set (sources @ [?new]).
           src_document_title x = title_or_unknown (select_title s (src_document_id x))"
        using Cons.prems(5) x0 t by (auto simp: title_or_unknown_idem)
      show ?thesis by (rule Cons.IH[OF run a Cons.prems(3) Cons.prems(4) b])
    next
      case False
      show ?thesis
      proof (cases "length seen \<ge> 5")
        case True
        then have "collect_sources en s ms sources seen = Inr srcs"
          using Cons.prems(1) Some False by simp
        then show ?thesis using Cons.IH Cons.prems(2-5) by blast
      next
        case short: False
        let ?new = "\<lparr>src_document_id = docId,
                          src_document_title = title_or_unknown (select_title s docId),
                          src_chunk_id = vm_id m,
                          src_text_snippet = (case vm_text m of Some t \<Rightarrow> t | None \<Rightarrow> []),
                          src_relevance_score = (case vm_score m of Some x \<Rightarrow> x | None \<Rightarrow> 0)\<rparr>"
        have run: "collect_sources en s ms (sources @ [?new]) (seen @ [docId]) = Inr srcs"
          using Cons.prems(1) Some False short by (simp split: option.splits)
        have a: "set (map src_document_id (sources @ [?new])) = set (seen @ [docId])"
          using Cons.prems(2) by auto
        have b: "distinct (seen @ [docId])" using Cons.prems(3) False by simp
        have c: "length (seen @ [docId]) \<le> 5" using short by simp
        have d: "\<forall>x\<in>set (sources @ [?new]).
           src_document_title x = title_or_unknown (select_title s (src_document_id x))"
          using Cons.prems(5) by auto
        show ?thesis by (rule Cons.IH[OF run a b c d])
      qed
    qed
  qed
qed

lemma collect_sources_subseq:
  assumes "collect_sources en s ms sources seen = Inr srcs"
  shows "\<exists>rest. srcs = sources @ rest \<and> subseq (map src_chunk_id rest) (map vm_id ms)"
  using assms
proof (induction ms arbitrary: sources seen)
  case Nil
  then show ?case by auto
next
  case (Cons m ms)
  show ?case
  proof (cases "truthy_str (vm_document_id m)")
    case None
    then obtain rest where "srcs = sources @ rest" "subseq (map src_chunk_id rest) (map vm_id ms)"
      using Cons by fastforce
    then show ?thesis by (auto intro: subseq_Cons')
  next
    case (Some docId)
    consider (skip) "collect_sources en s ms sources seen = Inr srcs"
      | (keep) new seen' where "collect_sources en s ms (sources @ [new]) seen' = Inr srcs"
          "src_chunk_id new = vm_id m"
      using Cons.prems Some by (auto split: if_splits option.splits)
    then show ?thesis
    proof cases
      case skip
      then obtain rest where "srcs = sources @ rest" "subseq (map src_chunk_id rest) (map vm_id ms)"
        using Cons.IH by blast
      then show ?thesis by (auto intro: subseq_Cons')
    next
      case keep
      then obtain rest where "srcs = (sources @ [new]) @ rest"
        "subseq (map src_chunk_id rest) (map vm_id ms)"
        using Cons.IH by blast
      then show ?thesis using keep(2) by auto
    qed
  qed
qed

text \<open>
  Which matches become sources. The loop's \<open>seenDocs\<close> is always a prefix of the first
  five distinct documents of the matches, so a match is kept exactly when its document
  is one of those five.
\<close>

lemma kept_documents_from_Nil: "kept_documents_from [] ms = kept_documents ms"
  by (simp add: kept_documents_from_def kept_documents_def)

lemma kept_documents_from_skip:
  "match_document m = None \<Longrightarrow> kept_documents_from seen (m # ms) = kept_documents_from seen ms"
  by (simp add: kept_documents_from_def map_filter_simps)

lemma kept_documents_from_seen:
  "match_document m = Some d \<Longrightarrow> d \<in> set seen
   \<Longrightarrow> kept_documents_from seen (m # ms) = kept_documents_from seen ms"
  by (simp add: kept_documents_from_def map_filter_simps)

lemma kept_documents_from_full:
  "5 \<le> length seen \<Longrightarrow> kept_documents_from seen ms = take 5 seen"
  by (simp add: kept_documents_from_def)

lemma kept_documents_from_new:
  assumes "match_document m = Some d" and "d \<notin> set seen"
  shows "kept_documents_from seen (m # ms) = kept_documents_from (seen @ [d]) ms"
proof -
  have "removeAll d (filter (\<lambda>x. x \<notin> set seen) xs) = filter (\<lambda>x. x \<notin> set (seen @ [d])) xs"
    for xs
    by (induction xs) auto
  then show ?thesis using assms
    by (simp add: kept_documents_from_def map_filter_simps)
qed

lemma seen_in_kept_documents_from:
  "length seen \<le> 5 \<Longrightarrow> d \<in> set seen \<Longrightarrow> d \<in> set (kept_documents_from seen ms)"
  by (simp add: kept_documents_from_def)

lemma collect_sources_expected:
  assumes "collect_sources en s ms sources seen = Inr out"
    and "length seen \<le> 5"
    and "\<forall>d\<in>set seen. \<exists>x\<in>set sources. src_document_id x = d"
    and "\<forall>x\<in>set sources.
           src_document_title x = title_or_unknown (select_title s (src_document_id x))"
  shows "out = sources @ map (source_of s) (filter (kept_match (kept_documents_from seen ms)) ms)"
  using assms
proof (induction ms arbitrary: sources seen)
  case Nil
  then show ?case by simp
next
  case (Cons m ms)
  show ?case
  proof (cases "match_document m")
    case None
    then have run: "collect_sources en s ms sources seen = Inr out"
      using Cons.prems(1) by (simp add: match_document_def)
    from Cons.IH[OF run Cons.prems(2-4)] show ?thesis
      using None by (simp add: kept_documents_from_skip kept_match_def)
  next
    case (Some d)
    then have td: "truthy_str (vm_document_id m) = Some d" by (simp add: match_document_def)
    have src: "source_of s m = \<lparr>src_document_id = d,
          src_document_title = title_or_unknown (select_title s d),
          src_chunk_id = vm_id m,
          src_text_snippet = (case vm_text m of Some t \<Rightarrow> t | None \<Rightarrow> []),
          src_relevance_score = (case vm_score m of Some x \<Rightarrow> x | None \<Rightarrow> 0)\<rparr>"
      using Some by (simp add: source_of_def)
    show ?thesis
    proof (cases "d \<in> set seen")
      case True
      then obtain x1 where "x1 \<in> set sources" "src_document_id x1 = d"
        using Cons.prems(3) by blast
      then have "find (\<lambda>x. src_document_id x = d) sources \<noteq> None"
        by (auto simp: find_None_iff)
      then obtain x0 where x0: "find (\<lambda>x. src_document_id x = d) sources = Some x0"
        by blast
      then have "x0 \<in> set sources" "src_document_id x0 = d"
        by (auto simp: find_Some_iff in_set_conv_nth)
      then have t: "src_document_title x0 = title_or_unknown (select_title s d)"
        using Cons.prems(4) by auto
      have run: "collect_sources en s ms (sources @ [source_of s m]) seen = Inr out"
        using Cons.prems(1) td True x0 t by (simp add: src title_or_unknown_idem)
      have a: "\<forall>d\<in>set seen. \<exists>x\<in>set (sources @ [source_of s m]). src_document_id x = d"
        using Cons.prems(3) by auto
      have b: "\<forall>x\<in>set (sources @ [source_of s m]).
           src_document_title x = title_or_unknown (select_title s (src_document_id x))"
        using Cons.prems(4) by (auto simp: src)
      have k: "kept_match (kept_documents_from seen ms) m"
        using Some True Cons.prems(2) by (simp add: kept_match_def seen_in_kept_documents_from)
      from Cons.IH[OF run Cons.prems(2) a b] show ?thesis
        using k by (simp add: kept_documents_from_seen[OF Some True])
    next
      case False
      show ?thesis
      proof (cases "length seen \<ge> 5")
        case True
        then have run: "collect_sources en s ms sources seen = Inr out"
          using Cons.prems(1) td False by simp
        have full: "kept_documents_from seen xs = seen" for xs
          using True Cons.prems(2) by (simp add: kept_documents_from_full)
        have k: "\<not> kept_match seen m"
          using Some False by (simp add: kept_match_def)
        from Cons.IH[OF run Cons.prems(2-4)] show ?thesis
          using k by (simp add: full)
      next
        case short: False
        have run: "collect_sources en s ms (sources @ [source_of s m]) (seen @ [d]) = Inr out"
          using Cons.prems(1) td False short by (simp add: src split: option.splits)
        have l: "length (seen @ [d]) \<le> 5" using short by simp
        have a: "\<forall>d'\<in>set (seen @ [d]). \<exists>x\<in>set (sources @ [source_of s m]). src_document_id x = d'"
          using Cons.prems(3) by (auto simp: src)
        have b: "\<forall>x\<in>set (sources @ [source_of s m]).
           src_document_title x = title_or_unknown (select_title s (src_document_id x))"
          using Cons.prems(4) by (auto simp: src)
        have k: "kept_match (kept_documents_from (seen @ [d]) ms) m"
          using Some l by (simp add: kept_match_def seen_in_kept_documents_from)
        from Cons.IH[OF run l a b] show ?thesis
          using k by (simp add: kept_documents_from_new[OF Some False])
      qed
    qed
  qed
qed

lemma collect_sources_returns:
  "faults en DbSelectTitle = None \<Longrightarrow> \<exists>out. collect_sources en s ms sources seen = Inr out"
  by (induction ms arbitrary: sources seen) (auto split: option.splits)

lemma retrieveContext_expected:
  assumes "retrieveContext query workspaceId en s = Inr srcs"
  shows "srcs = expected_sources s (vec_query en (ai_embed en query) 10 (WsEq workspaceId))"
proof -
  let ?ms = "vec_query en (ai_embed en query) 10 (WsEq workspaceId)"
  from assms have run: "collect_sources en s ?ms [] [] = Inr srcs"
    by (auto simp: retrieveContext_def split: option.splits)
  from collect_sources_expected[OF run] show ?thesis
    by (simp add: expected_sources_def kept_documents_from_Nil)
qed

lemma retrieveContext_returns:
  assumes "faults en AiQueryEmbed = None" "faults en VecQuery = None"
    "faults en DbSelectTitle = None"
  shows "\<exists>srcs. retrieveContext query workspaceId en s = Inr srcs"
  using assms collect_sources_returns[OF assms(3)] by (simp add: retrieveContext_def)

text \<open>
  Claim C7, as the claim states it, fails: the source list is not one entry per
  document. When two chunks of the document \<open>a\<close> are among the matches, both become
  sources.
\<close>

theorem retrieveContext_two_sources_of_one_document:
  "(case retrieveContext ''invoice'' ''w1'' env_search s_search of
      Inr srcs \<Rightarrow> map src_document_id srcs = [''p'', ''b'', ''c'', ''a'', ''a'']
                  \<and> map src_chunk_id srcs = [''p_0'', ''b_0'', ''c_0'', ''a_0'', ''a_1'']
    | Inl e \<Rightarrow> False)
   \<and> \<not> distinct [''p'', ''b'', ''c'', ''a'', ''a'']"
  by code_simp

text \<open>
  Claim C7, amended. The context retrieval queries the vector index with \<open>topK = 10\<close>,
  filtered to the session's workspace. Whenever it returns, its sources are exactly
  these: one source for every match whose document is among the first five distinct
  documents of the matches, in the order of the matches (a match that names no document
  gives none) - so a document has as many sources as it has matches, the sources name
  at most 5 distinct documents, and every source carries the title of its document
  (\<open>Unknown Document\<close> when the row is missing or the title empty). It returns whenever
  the embedding, the index query and the title lookups do not reject.
\<close>

theorem retrieveContext_sources:
  "(retrieveContext query workspaceId en s = Inr srcs
      \<longrightarrow> srcs = expected_sources s (vec_query en (ai_embed en query) 10 (WsEq workspaceId))
          \<and> subseq (map src_chunk_id srcs)
                (map vm_id (vec_query en (ai_embed en query) 10 (WsEq workspaceId)))
          \<and> card (set (map src_document_id srcs)) \<le> 5
          \<and> (\<forall>x\<in>set srcs.
                src_document_title x = title_or_unknown (select_title s (src_document_id x))))
   \<and> (faults en AiQueryEmbed = None \<and> faults en VecQuery = None
        \<and> faults en DbSelectTitle = None
      \<longrightarrow> retrieveContext query workspaceId en s
            = Inr (expected_sources s (vec_query en (ai_embed en query) 10 (WsEq workspaceId))))"
proof (intro conjI impI)
  let ?ms = "vec_query en (ai_embed en query) 10 (WsEq workspaceId)"
  assume r: "retrieveContext query workspaceId en s = Inr srcs"
  then have run: "collect_sources en s ?ms [] [] = Inr srcs"
    by (auto simp: retrieveContext_def split: option.splits)
  show "srcs = expected_sources s ?ms" by (rule retrieveContext_expected[OF r])
  from collect_sources_subseq[OF run]
  show "subseq (map src_chunk_id srcs) (map vm_id ?ms)" by simp
  from collect_sources_inv[OF run] obtain seen'
    where "set (map src_document_id srcs) = set seen'" "distinct seen'" "length seen' \<le> 5"
      and titles: "\<forall>x\<in>set srcs.
          src_document_title x = title_or_unknown (select_title s (src_document_id x))"
    by auto
  then show "card (set (map src_document_id srcs)) \<le> 5"
    by (simp add: distinct_card)
  show "\<forall>x\<in>set srcs.
          src_document_title x = title_or_unknown (select_title s (src_document_id x))"
    by (rule titles)
next
  let ?ms = "vec_query en (ai_embed en query) 10 (WsEq workspaceId)"
  assume "faults en AiQueryEmbed = None \<and> faults en VecQuery = None
        \<and> faults en DbSelectTitle = None"
  then obtain srcs where r: "retrieveContext query workspaceId en s = Inr srcs"
    using retrieveContext_returns by blast
  then show "retrieveContext query workspaceId en s = Inr (expected_sources s ?ms)"
    using retrieveContext_expected[OF r] by simp
qed

theorem retrieveContext_sources_witness:
  "faults env_six AiQueryEmbed = None \<and> faults env_six VecQuery = None
   \<and> faults env_six DbSelectTitle = None
   \<and> retrieveContext ''invoice'' ''w1'' env_six s_search
     = Inr (expected_sources s_search (vec_query env_six (ai_embed env_six ''invoice'') 10
              (WsEq ''w1'')))
   \<and> map src_chunk_id (expected_sources s_search
         (vec_query env_six (ai_embed env_six ''invoice'') 10 (WsEq ''w1'')))
     = [''d1_0'', ''d2_0'', ''d3_0'', ''d4_0'', ''d5_0'', ''d1_1'']
   \<and> retrieveContext ''invoice'' ''w1'' env_search s_search
     = Inr (projr (retrieveContext ''invoice'' ''w1'' env_search s_search))
   \<and> projr (retrieveContext ''invoice'' ''w1'' env_search s_search)
     = expected_sources s_search (vec_query env_search (ai_embed env_search ''invoice'') 10
         (WsEq ''w1''))
   \<and> map src_document_title (projr (retrieveContext ''invoice'' ''w1'' env_search s_search))
     = [''p.txt'', ''b.txt'', ''c.txt'', ''a.txt'', ''a.txt'']
   \<and> card (set (map src_document_id
        (projr (retrieveContext ''invoice'' ''w1'' env_search s_search)))) \<le> 5"
proof -
  have f: "faults env_six AiQueryEmbed = None" "faults env_six VecQuery = None"
    "faults env_six DbSelectTitle = None"
    by (simp_all add: env_six_def env0_def)
  have six: "map src_chunk_id (expected_sources s_search
         (vec_query env_six (ai_embed env_six ''invoice'') 10 (WsEq ''w1'')))
     = [''d1_0'', ''d2_0'', ''d3_0'', ''d4_0'', ''d5_0'', ''d1_1'']"
    by code_simp
  have r: "retrieveContext ''invoice'' ''w1'' env_search s_search
     = Inr (projr (retrieveContext ''invoice'' ''w1'' env_search s_search))"
    by code_simp
  have t: "map src_document_title (projr (retrieveContext ''invoice'' ''w1'' env_search s_search))
     = [''p.txt'', ''b.txt'', ''c.txt'', ''a.txt'', ''a.txt'']"
    by code_simp
  from retrieveContext_sources[of "''invoice''" "''w1''" env_six s_search] f
  have a: "retrieveContext ''invoice'' ''w1'' env_six s_search
     = Inr (expected_sources s_search (vec_query env_six (ai_embed env_six ''invoice'') 10
              (WsEq ''w1'')))"
    by blast
  from retrieveContext_sources[of "''invoice''" "''w1''" env_search s_search
      "projr (retrieveContext ''invoice'' ''w1'' env_search s_search)"] r
  have b: "projr (retrieveContext ''invoice'' ''w1'' env_search s_search)
     = expected_sources s_search (vec_query env_search (ai_embed env_search ''invoice'') 10
         (WsEq ''w1''))"
    and c: "card (set (map src_document_id
        (projr (retrieveContext ''invoice'' ''w1'' env_search s_search)))) \<le> 5"
    by blast+
  show ?thesis using f six r t a b c by blast
qed

section \<open>Chunker and chunk identifiers: further properties\<close>

lemma chunk_loop_returns:
  assumes "ov < wpc"
  shows "\<exists>r. chunk_loop ws wpc ov start chunks = Some r"
proof (induction "nat (int (length ws) - start)" arbitrary: start chunks rule: less_induct)
  case less
  show ?case
  proof (cases "start < int (length ws)")
    case False
    then show ?thesis by (subst chunk_loop.simps) simp
  next
    case True
    let ?e = "min (start + wpc) (int (length ws))"
    show ?thesis
    proof (cases "?e - ov \<ge> int (length ws) - ov")
      case brk: True
      then show ?thesis using True by (subst chunk_loop.simps) (simp add: Let_def)
    next
      case cont: False
      then have "nat (int (length ws) - (?e - ov)) < nat (int (length ws) - start)"
        using True assms by (auto simp: min_def split: if_splits)
      from less[OF this] obtain r where
        "chunk_loop ws wpc ov (?e - ov)
           (chunks @ [\<lparr>c_text = js_join_sp (js_slice ws start ?e),
                        tokenCount = (4 * length (js_slice ws start ?e) + 2) div 3\<rparr>]) = Some r"
        by blast
      then show ?thesis using True cont by (subst chunk_loop.simps) (simp add: Let_def)
    qed
  qed
qed

lemma chunkText_512_64_returns: "\<exists>cs. chunkText txt 512 64 = Some cs"
  unfolding chunkText_def by (rule chunk_loop_returns) simp

lemma digit_inj: "a < 10 \<Longrightarrow> b < 10 \<Longrightarrow> ''0123456789'' ! a = ''0123456789'' ! b \<Longrightarrow> a = (b::nat)"
proof -
  assume "a < 10" "b < 10" "''0123456789'' ! a = ''0123456789'' ! b"
  moreover have "distinct ''0123456789''" by simp
  ultimately show ?thesis by (simp add: nth_eq_iff_index_eq)
qed

lemma nat_to_string_nonempty: "nat_to_string n \<noteq> []"
  by (subst nat_to_string.simps) simp

lemma nat_to_string_inj: "nat_to_string a = nat_to_string b \<Longrightarrow> a = b"
proof (induction a arbitrary: b rule: nat_to_string.induct)
  case (1 a)
  show ?case
  proof (cases "a < 10")
    case True
    show ?thesis
    proof (cases "b < 10")
      case b: True
      then show ?thesis using True "1.prems" digit_inj
        by (simp add: nat_to_string.simps[of a] nat_to_string.simps[of b])
    next
      case b: False
      then show ?thesis using True "1.prems" nat_to_string_nonempty[of "b div 10"]
        by (simp add: nat_to_string.simps[of a] nat_to_string.simps[of b])
    qed
  next
    case False
    show ?thesis
    proof (cases "b < 10")
      case b: True
      then show ?thesis using False "1.prems" nat_to_string_nonempty[of "a div 10"]
        by (simp add: nat_to_string.simps[of a] nat_to_string.simps[of b])
    next
      case b: False
      from False b "1.prems" have eq: "nat_to_string (a div 10) = nat_to_string (b div 10)"
        and d: "''0123456789'' ! (a mod 10) = ''0123456789'' ! (b mod 10)"
        by (simp_all add: nat_to_string.simps[of a] nat_to_string.simps[of b])
      from "1.IH"[OF False eq] have "a div 10 = b div 10" .
      moreover from d have "a mod 10 = b mod 10" by (intro digit_inj) simp_all
      ultimately show ?thesis by (metis div_mult_mod_eq)
    qed
  qed
qed

lemma chunkId_inj: "chunkId d i = chunkId d j \<longleftrightarrow> i = j"
  using nat_to_string_inj by (auto simp: chunkId_def)

section \<open>Ingestion pipeline: what a run keeps and how it ends\<close>


lemma keepsD: "keeps F m \<Longrightarrow> m s = (r, s') \<Longrightarrow> F s' = F s"
  by (metis keeps_def snd_conv)

lemma keeps_ret: "keeps F (ret x)"
  by (simp add: keeps_def ret_def)

lemma keeps_throw: "keeps F (throw e)"
  by (simp add: keeps_def throw_def)

lemma keeps_fault: "keeps F (fault en c)"
  by (simp add: keeps_def fault_def split: option.splits)

lemma keeps_modify: "(\<And>s. F (g s) = F s) \<Longrightarrow> keeps F (modify g)"
  by (simp add: keeps_def modify_def)

lemma keeps_andThen: "keeps F m \<Longrightarrow> (\<And>x. keeps F (f x)) \<Longrightarrow> keeps F (andThen m f)"
proof -
  assume m: "keeps F m" and f: "\<And>x. keeps F (f x)"
  show ?thesis
    unfolding keeps_def
  proof
    fix s
    obtain r s1 where ms: "m s = (r, s1)" by (cases "m s")
    have 1: "F s1 = F s" using keepsD[OF m ms] .
    show "F (snd (andThen m f s)) = F s"
    proof (cases r)
      case (Inl e)
      then show ?thesis using ms 1 by (simp add: andThen_def)
    next
      case (Inr x)
      obtain r2 s2 where fs: "f x s1 = (r2, s2)" by (cases "f x s1")
      have "F s2 = F s1" using keepsD[OF f fs] .
      then show ?thesis using Inr ms fs 1 by (simp add: andThen_def)
    qed
  qed
qed

lemma keeps_reader: "(\<And>t. keeps F (g t)) \<Longrightarrow> keeps F (\<lambda>s. g s s)"
  by (simp add: keeps_def)

lemma keeps_insert_chunk: "keeps (\<lambda>s. G (documents s)) (insert_chunk r)"
  by (simp add: keeps_def insert_chunk_def)

lemma keeps_insert_tag: "keeps (\<lambda>s. G (documents s)) (insert_tag r)"
  by (simp add: keeps_def insert_tag_def)

lemma keeps_insert_document_tag: "keeps (\<lambda>s. G (documents s)) (insert_document_tag r)"
  by (simp add: keeps_def insert_document_tag_def)

lemma keeps_randomUUID: "keeps (\<lambda>s. G (documents s)) (randomUUID en)"
  by (simp add: keeps_def randomUUID_def)

lemma keeps_embed_chunk: "keeps (\<lambda>s. G (documents s)) (embed_chunk data en i c)"
  unfolding embed_chunk_def
  by (intro keeps_andThen keeps_fault keeps_modify keeps_insert_chunk) simp

lemma keeps_embed_chunks: "keeps (\<lambda>s. G (documents s)) (embed_chunks data en i cs)"
proof (induction cs arbitrary: i)
  case Nil
  show ?case by (simp add: keeps_def)
next
  case (Cons c cs)
  show ?case
    unfolding keeps_def
  proof
    fix s
    show "G (documents (snd (embed_chunks data en i (c # cs) s))) = G (documents s)"
    proof (cases "embed_chunk data en i c s")
      case (Pair r s1)
      then have 1: "G (documents s1) = G (documents s)"
        using keepsD[OF keeps_embed_chunk] by fast
      show ?thesis
      proof (cases r)
        case (Inl e)
        then show ?thesis using Pair 1 by simp
      next
        case (Inr u)
        then show ?thesis using Pair 1 Cons[of "Suc i"] by (simp add: keeps_def)
      qed
    qed
  qed
qed

lemma keeps_autoTag: "keeps F (autoTag txt ws en)"
  by (simp add: keeps_def autoTag_def andThen_def fault_def ret_def Let_def split: option.splits)

lemma keeps_store_tag: "keeps (\<lambda>s. G (documents s)) (store_tag data en j tg)"
  by (simp add: keeps_def store_tag_def andThen_def fault_def ret_def randomUUID_def
      insert_tag_def insert_document_tag_def split: option.splits)


lemma keeps_store_tags: "keeps (\<lambda>s. G (documents s)) (store_tags data en j tgs)"
proof (induction tgs arbitrary: j)
  case Nil
  show ?case by (simp add: keeps_def)
next
  case (Cons tg tgs)
  show ?case
    unfolding keeps_def
  proof
    fix s
    obtain r s1 where st: "store_tag data en j tg s = (r, s1)" by (cases "store_tag data en j tg s")
    have 1: "G (documents s1) = G (documents s)"
      using keepsD[OF keeps_store_tag st] .
    show "G (documents (snd (store_tags data en j (tg # tgs) s))) = G (documents s)"
    proof (cases r)
      case (Inl e)
      then show ?thesis using st 1 by simp
    next
      case (Inr u)
      then show ?thesis using st 1 Cons[of "Suc j"] by (simp add: keeps_def)
    qed
  qed
qed

lemma keeps_extractText: "keeps F (extractText content mimeType en)"
  unfolding extractText_def by (intro keeps_andThen keeps_fault keeps_ret)

lemma doc_key_update_status [simp]:
  "map doc_key (documents (update_status i st ts s)) = map doc_key (documents s)"
  by (simp add: update_status_def doc_key_def comp_def if_distrib cong: if_cong)

lemma doc_key_update_ready [simp]:
  "map doc_key (documents (update_ready i k ts s)) = map doc_key (documents s)"
  by (simp add: update_ready_def doc_key_def comp_def if_distrib cong: if_cong)

lemma doc_key_update_error [simp]:
  "map doc_key (documents (update_error i m ts s)) = map doc_key (documents s)"
  by (simp add: update_error_def doc_key_def comp_def if_distrib cong: if_cong)

lemma keeps_get_blob: "keeps F (get_blob data)"
  by (simp add: keeps_def get_blob_def split: option.splits)

lemma keeps_process_blob:
  assumes ex: "\<And>c m. keeps (\<lambda>s. map doc_key (documents s)) (extract c m en)"
  shows "keeps (\<lambda>s. map doc_key (documents s)) (process_blob extract data en content)"
  unfolding process_blob_def
  by (intro keeps_andThen keeps_fault keeps_modify ex
      keeps_embed_chunks keeps_store_tags keeps_autoTag doc_key_update_ready) simp

lemma keeps_try:
  assumes ex: "\<And>c m. keeps (\<lambda>s. map doc_key (documents s)) (extract c m en)"
  shows "keeps (\<lambda>s. map doc_key (documents s)) (processDocument_try extract data en)"
  unfolding processDocument_try_def
  by (intro keeps_andThen keeps_fault keeps_modify doc_key_update_status keeps_get_blob
      keeps_process_blob ex)

lemma keeps_processDocument_with:
  assumes ex: "\<And>c m. keeps (\<lambda>s. map doc_key (documents s)) (extract c m en)"
  shows "keeps (\<lambda>s. map doc_key (documents s)) (processDocument_with extract data en)"
  unfolding keeps_def
proof
  fix s
  obtain r s1 where t: "processDocument_try extract data en s = (r, s1)"
    by (cases "processDocument_try extract data en s")
  have 1: "map doc_key (documents s1) = map doc_key (documents s)"
    using keepsD[OF keeps_try t] ex by blast
  show "map doc_key (documents (snd (processDocument_with extract data en s))) = map doc_key (documents s)"
  proof (cases r)
    case (Inr u)
    then show ?thesis using t 1 by (simp add: processDocument_with_def)
  next
    case (Inl e)
    then show ?thesis using t 1
      by (simp add: processDocument_with_def andThen_def fault_def modify_def split: option.splits)
  qed
qed

lemma keeps_processDocument:
  "keeps (\<lambda>s. map doc_key (documents s)) (processDocument data en)"
  unfolding processDocument_def by (rule keeps_processDocument_with) (rule keeps_extractText)


lemma andThen_InrE:
  assumes "andThen m f s = (Inr y, s')"
  obtains x s1 where "m s = (Inr x, s1)" and "f x s1 = (Inr y, s')"
  using assms by (auto simp: andThen_def split: prod.splits sum.splits)

lemma fault_None [simp]: "faults en c = None \<Longrightarrow> fault en c s = (Inr (), s)"
  by (simp add: fault_def)

lemma fault_Some [simp]: "faults en c = Some e \<Longrightarrow> fault en c s = (Inl e, s)"
  by (simp add: fault_def)

lemma process_blob_success:
  assumes "process_blob extract data en content s = (Inr u, s')"
  shows "\<exists>s1. s' = update_ready (document_id data) (''text/'' @ document_id data @ ''.txt'') (now en) s1"
  using assms unfolding process_blob_def
  by (elim andThen_InrE) (auto simp: modify_def)

lemma try_success:
  assumes "processDocument_try extract data en s = (Inr u, s')"
  shows "\<exists>s1. s' = update_ready (document_id data) (''text/'' @ document_id data @ ''.txt'') (now en) s1"
  using assms unfolding processDocument_try_def
  by (elim andThen_InrE) (rule process_blob_success)

lemma find_map_update:
  assumes "\<And>d. d_id (g d) = d_id d"
  shows "find (\<lambda>d. d_id d = i) (map (\<lambda>d. if d_id d = i then g d else d) xs)
       = map_option g (find (\<lambda>d. d_id d = i) xs)"
  by (induction xs) (auto simp: assms)

lemma get_document_update_ready:
  "get_document (update_ready i k ts s) i
     = map_option (\<lambda>d. d\<lparr>d_status := StReady, d_text_key := Some k, d_updated_at := ts\<rparr>)
         (get_document s i)"
  unfolding get_document_def update_ready_def by (simp add: find_map_update)

lemma get_document_update_error:
  "get_document (update_error i m ts s) i
     = map_option (\<lambda>d. d\<lparr>d_status := StError, d_error_message := Some m, d_updated_at := ts\<rparr>)
         (get_document s i)"
  unfolding get_document_def update_error_def by (simp add: find_map_update)

lemma get_document_exists_iff:
  "get_document s i \<noteq> None \<longleftrightarrow> i \<in> set (map (fst \<circ> doc_key) (documents s))"
  by (auto simp: get_document_def find_None_iff doc_key_def)

lemma get_document_exists_keys:
  assumes "map doc_key (documents s') = map doc_key (documents s)"
  shows "get_document s' i \<noteq> None \<longleftrightarrow> get_document s i \<noteq> None"
proof -
  have "map (fst \<circ> doc_key) (documents s') = map (fst \<circ> doc_key) (documents s)"
    using assms by (metis map_map)
  then show ?thesis by (simp only: get_document_exists_iff)
qed

lemma processDocument_returns:
  "faults en DbSetError = None \<Longrightarrow> fst (processDocument_with extract data en s) = Inr ()"
  by (auto simp: processDocument_with_def andThen_def modify_def split: prod.splits sum.splits)

lemma processDocument_outcome:
  assumes ret: "processDocument data en s = (Inr (), s')"
    and ex: "get_document s (document_id data) \<noteq> None"
  shows "\<exists>d. get_document s' (document_id data) = Some d
           \<and> (case fst (processDocument_try extractText data en s) of
                 Inr u \<Rightarrow> d_status d = StReady
               | Inl e \<Rightarrow> d_status d = StError \<and> d_error_message d = Some (exn_message e))"
proof -
  obtain r s1 where t: "processDocument_try extractText data en s = (r, s1)"
    by (cases "processDocument_try extractText data en s")
  have k: "map doc_key (documents s1) = map doc_key (documents s)"
    using keepsD[OF keeps_try t] keeps_extractText by blast
  have ex1: "get_document s1 (document_id data) \<noteq> None"
    using get_document_exists_keys[OF k] ex by simp
  show ?thesis
  proof (cases r)
    case (Inr u)
    then have s': "s' = s1" using ret t by (simp add: processDocument_def processDocument_with_def)
    from try_success[of extractText data en s u s1] t Inr obtain s2
      where s2: "s1 = update_ready (document_id data) (''text/'' @ document_id data @ ''.txt'') (now en) s2"
      by auto
    have "get_document s2 (document_id data) \<noteq> None"
      using ex1 unfolding s2 by (simp add: get_document_update_ready)
    then show ?thesis using t Inr s' s2 by (auto simp: get_document_update_ready)
  next
    case (Inl e)
    then have "s' = update_error (document_id data) (exn_message e) (now en) s1"
      using ret t
      by (auto simp: processDocument_def processDocument_with_def andThen_def fault_def modify_def
          split: option.splits)
    then show ?thesis using t Inl ex1 by (auto simp: get_document_update_error)
  qed
qed



lemma embed_chunk_ok:
  assumes "faults en (AiEmbed i) = None" "faults en (VecUpsert i) = None"
    "faults en (DbInsertChunk i) = None"
    "chunkId (document_id data) i \<notin> set (map ch_id (document_chunks s))"
  shows "\<exists>s1. embed_chunk data en i c s = (Inr (), s1)
           \<and> map ch_id (document_chunks s1)
               = map ch_id (document_chunks s) @ [chunkId (document_id data) i]
           \<and> documents s1 = documents s"
  using assms by (simp add: embed_chunk_def andThen_def modify_def insert_chunk_def)

lemma embed_chunk_embed_fails:
  assumes "faults en (AiEmbed i) = Some e"
  shows "embed_chunk data en i c s = (Inl e, s)"
  using assms by (simp add: embed_chunk_def andThen_def)

lemma embed_chunks_fail_at:
  assumes "k < length cs" and "faults en (AiEmbed (i0 + k)) = Some e"
    and "\<forall>j<k. faults en (AiEmbed (i0 + j)) = None \<and> faults en (VecUpsert (i0 + j)) = None
                \<and> faults en (DbInsertChunk (i0 + j)) = None"
    and "\<forall>j<k. chunkId (document_id data) (i0 + j) \<notin> set (map ch_id (document_chunks s))"
  shows "\<exists>s1. embed_chunks data en i0 cs s = (Inl e, s1)
           \<and> map ch_id (document_chunks s1)
               = map ch_id (document_chunks s) @ map (chunkId (document_id data)) [i0..<i0 + k]
           \<and> documents s1 = documents s"
  using assms
proof (induction k arbitrary: i0 cs s)
  case 0
  then obtain c cs' where cs: "cs = c # cs'" by (cases cs) auto
  show ?case using 0 cs by (simp add: embed_chunk_embed_fails)
next
  case (Suc k)
  then obtain c cs' where cs: "cs = c # cs'" by (cases cs) auto
  have f0: "faults en (AiEmbed i0) = None" "faults en (VecUpsert i0) = None"
    "faults en (DbInsertChunk i0) = None"
    "chunkId (document_id data) i0 \<notin> set (map ch_id (document_chunks s))"
    using Suc.prems(3,4) by (metis add.right_neutral zero_less_Suc)+
  from embed_chunk_ok[OF f0, of c] obtain s1 where
    s1: "embed_chunk data en i0 c s = (Inr (), s1)"
      "map ch_id (document_chunks s1) = map ch_id (document_chunks s) @ [chunkId (document_id data) i0]"
      "documents s1 = documents s"
    by blast
  have a: "k < length cs'" using Suc.prems(1) cs by simp
  have b: "faults en (AiEmbed (Suc i0 + k)) = Some e" using Suc.prems(2) by simp
  have c: "\<forall>j<k. faults en (AiEmbed (Suc i0 + j)) = None \<and> faults en (VecUpsert (Suc i0 + j)) = None
                \<and> faults en (DbInsertChunk (Suc i0 + j)) = None"
    using Suc.prems(3) by (metis add_Suc_shift Suc_less_eq)
  have d: "\<forall>j<k. chunkId (document_id data) (Suc i0 + j) \<notin> set (map ch_id (document_chunks s1))"
  proof (intro allI impI)
    fix j assume "j < k"
    then have "chunkId (document_id data) (i0 + Suc j) \<notin> set (map ch_id (document_chunks s))"
      using Suc.prems(4) by (metis Suc_less_eq)
    moreover have "chunkId (document_id data) (Suc i0 + j) \<noteq> chunkId (document_id data) i0"
      by (simp add: chunkId_inj)
    ultimately show "chunkId (document_id data) (Suc i0 + j) \<notin> set (map ch_id (document_chunks s1))"
      unfolding s1(2) by simp
  qed
  from Suc.IH[OF a b c d] obtain s2 where
    s2: "embed_chunks data en (Suc i0) cs' s1 = (Inl e, s2)"
      "map ch_id (document_chunks s2)
         = map ch_id (document_chunks s1) @ map (chunkId (document_id data)) [Suc i0..<Suc i0 + k]"
      "documents s2 = documents s1"
    by blast
  have "[i0..<i0 + Suc k] = i0 # [Suc i0..<Suc i0 + k]"
    by (simp add: upt_conv_Cons)
  then show ?case using cs s1 s2 by simp
qed



lemma split_ws_aux_words:
  "split_ws_aux b [] (concat (replicate n ''w '')) = replicate n ''w'' @ [[]]"
  by (induction n arbitrary: b) (simp_all add: is_space_def)

lemma js_split_ws_text5: "js_split_ws text5 = replicate 1400 ''w'' @ [[]]"
  by (simp add: js_split_ws_def text5_def split_ws_aux_words)

lemma chunk_count_text5: "length (the (chunkText text5 512 64)) = 5"
  by (simp add: chunkText_def js_split_ws_text5 chunk_loop.simps Let_def)


lemma extractText_value:
  assumes "fst (extractText content mimeType en s) = Inr txt"
  shows "extractText content mimeType en s1 = (Inr txt, s1)"
  using assms
  by (cases "faults en FileRead") (simp_all add: extractText_def andThen_def ret_def)

lemma embedding_failure_run:
  assumes h1: "faults en DbSetProcessing = None" and h2: "faults en FilesGet = None"
    and h3: "files s (file_key data) = Some content"
    and h4: "fst (extractText content (mime_type data) en s) = Inr txt"
    and h5: "faults en FilesPutText = None"
    and h6: "chunkText txt 512 64 = Some chunks" "k < length chunks"
    and h7: "\<forall>j<k. faults en (AiEmbed j) = None \<and> faults en (VecUpsert j) = None
                \<and> faults en (DbInsertChunk j) = None"
    and h8: "faults en (AiEmbed k) = Some e"
    and h9: "\<forall>j<k. chunkId (document_id data) j \<notin> set (map ch_id (document_chunks s))"
    and h10: "faults en DbSetError = None"
  shows "\<exists>s1. processDocument_try extractText data en s = (Inl e, s1)
          \<and> processDocument data en s
              = (Inr (), update_error (document_id data) (exn_message e) (now en) s1)
          \<and> map ch_id (document_chunks s1)
              = map ch_id (document_chunks s) @ map (chunkId (document_id data)) [0..<k]"
proof -
  let ?sa = "update_status (document_id data) StProcessing (now en) s"
  let ?sb = "?sa\<lparr>files := (files ?sa)(''text/'' @ document_id data @ ''.txt'' \<mapsto> txt)\<rparr>"
  have ch: "document_chunks ?sb = document_chunks s" by (simp add: update_status_def)
  have a: "faults en (AiEmbed (0 + k)) = Some e" using h8 by simp
  have b: "\<forall>j<k. faults en (AiEmbed (0 + j)) = None \<and> faults en (VecUpsert (0 + j)) = None
                \<and> faults en (DbInsertChunk (0 + j)) = None" using h7 by simp
  have c: "\<forall>j<k. chunkId (document_id data) (0 + j) \<notin> set (map ch_id (document_chunks ?sb))"
    using h9 ch by simp
  from embed_chunks_fail_at[OF h6(2) a b c] obtain s1
    where s1: "embed_chunks data en 0 chunks ?sb = (Inl e, s1)"
    "map ch_id (document_chunks s1)
       = map ch_id (document_chunks s) @ map (chunkId (document_id data)) [0..<k]"
    using ch by auto
  have blob: "get_blob data ?sa = (Inr content, ?sa)"
    using h3 by (simp add: get_blob_def update_status_def)
  have pb: "process_blob extractText data en content ?sa = (Inl e, s1)"
    using extractText_value[OF h4, of ?sa] h5 h6(1) s1(1)
    by (simp add: process_blob_def andThen_def modify_def)
  have t: "processDocument_try extractText data en s = (Inl e, s1)"
    using h1 h2 blob pb by (simp add: processDocument_try_def andThen_def modify_def)
  then have "processDocument data en s
              = (Inr (), update_error (document_id data) (exn_message e) (now en) s1)"
    using h10 by (simp add: processDocument_def processDocument_with_def andThen_def modify_def)
  then show ?thesis using t s1(2) by blast
qed


lemma embedding_failure_scenario:
  assumes h1: "faults en DbSetProcessing = None" and h2: "faults en FilesGet = None"
    and h3: "files s (file_key data) = Some content"
    and h4: "fst (extractText content (mime_type data) en s) = Inr txt"
    and h5: "faults en FilesPutText = None"
    and h6: "chunkText txt 512 64 = Some chunks" "k < length chunks"
    and h7: "\<forall>j<k. faults en (AiEmbed j) = None \<and> faults en (VecUpsert j) = None
                \<and> faults en (DbInsertChunk j) = None"
    and h8: "faults en (AiEmbed k) = Some e"
    and h9: "\<forall>j\<le>k. chunkId (document_id data) j \<notin> set (map ch_id (document_chunks s))"
    and h10: "faults en DbSetError = None"
    and ex: "get_document s (document_id data) \<noteq> None"
  shows "fst (processDocument data en s) = Inr ()
    \<and> (\<forall>j<k. chunkId (document_id data) j
                \<in> set (map ch_id (document_chunks (snd (processDocument data en s)))))
    \<and> chunkId (document_id data) k
         \<notin> set (map ch_id (document_chunks (snd (processDocument data en s))))
    \<and> (\<exists>d. get_document (snd (processDocument data en s)) (document_id data) = Some d
            \<and> d_status d = StError \<and> d_error_message d = Some (exn_message e))"
proof -
  have h9': "\<forall>j<k. chunkId (document_id data) j \<notin> set (map ch_id (document_chunks s))"
    using h9 by simp
  from embedding_failure_run[OF h1 h2 h3 h4 h5 h6 h7 h8 h9' h10] obtain s1 where
    t: "processDocument_try extractText data en s = (Inl e, s1)"
    and p: "processDocument data en s
              = (Inr (), update_error (document_id data) (exn_message e) (now en) s1)"
    and c: "map ch_id (document_chunks s1)
              = map ch_id (document_chunks s) @ map (chunkId (document_id data)) [0..<k]"
    by blast
  let ?s' = "snd (processDocument data en s)"
  have s': "?s' = update_error (document_id data) (exn_message e) (now en) s1"
    using p by simp
  have c': "map ch_id (document_chunks ?s')
              = map ch_id (document_chunks s) @ map (chunkId (document_id data)) [0..<k]"
    unfolding s' using c by (simp add: update_error_def)
  have in_: "\<forall>j<k. chunkId (document_id data) j \<in> set (map ch_id (document_chunks ?s'))"
    unfolding c' by auto
  have out: "chunkId (document_id data) k \<notin> set (map ch_id (document_chunks ?s'))"
    unfolding c' using h9 by (auto simp: chunkId_inj)
  have p': "processDocument data en s = (Inr (), ?s')" using p by simp
  from processDocument_outcome[OF p' ex] t
  have "\<exists>d. get_document ?s' (document_id data) = Some d \<and> d_status d = StError
            \<and> d_error_message d = Some (exn_message e)"
    by auto
  then show ?thesis using p in_ out by simp
qed

text \<open>
  When the \<open>try\<close> block raises, the \<open>documents\<close> table is as the first status write
  left it: every later step but the last keeps the table, and the last cannot raise.
\<close>

lemma andThen_Inl_keeps:
  assumes "andThen m f s = (Inl e, s')" and "keeps F m"
    and "\<And>x s1. f x s1 = (Inl e, s') \<Longrightarrow> F s' = F s1"
  shows "F s' = F s"
proof (cases "m s")
  case (Pair r s1)
  have k: "F s1 = F s" using keepsD[OF assms(2) Pair] .
  show ?thesis
  proof (cases r)
    case (Inl e1)
    then show ?thesis using assms(1) Pair k by (simp add: andThen_def)
  next
    case (Inr x)
    then have "f x s1 = (Inl e, s')" using assms(1) Pair by (simp add: andThen_def)
    from assms(3)[OF this] show ?thesis using k by simp
  qed
qed

lemma process_blob_raises:
  "process_blob extractText data en content s = (Inl e, s') \<Longrightarrow> documents s' = documents s"
  unfolding process_blob_def
  apply (erule andThen_Inl_keeps[where F = documents], rule keeps_extractText)
  apply (erule andThen_Inl_keeps[where F = documents], rule keeps_fault)
  apply (erule andThen_Inl_keeps[where F = documents], rule keeps_modify, simp)
  apply (erule andThen_Inl_keeps[where F = documents], rule keeps_embed_chunks[where G = "\<lambda>x. x"])
  apply (erule andThen_Inl_keeps[where F = documents], rule keeps_autoTag)
  apply (erule andThen_Inl_keeps[where F = documents], rule keeps_store_tags[where G = "\<lambda>x. x"])
  apply (erule andThen_Inl_keeps[where F = documents], rule keeps_fault)
  apply (simp add: modify_def)
  done

lemma try_raises_documents:
  assumes "processDocument_try extractText data en s = (Inl e, s1)"
    and "faults en DbSetProcessing = None"
  shows "documents s1 = documents (update_status (document_id data) StProcessing (now en) s)"
proof -
  let ?sa = "update_status (document_id data) StProcessing (now en) s"
  from assms have "andThen (fault en FilesGet) (\<lambda>_.
       andThen (get_blob data) (\<lambda>content. process_blob extractText data en content)) ?sa
       = (Inl e, s1)"
    by (simp add: processDocument_try_def andThen_def modify_def)
  then show ?thesis
    apply -
    apply (erule andThen_Inl_keeps[where F = documents], rule keeps_fault)
    apply (erule andThen_Inl_keeps[where F = documents], rule keeps_get_blob)
    apply (erule process_blob_raises)
    done
qed

lemma get_document_update_status:
  "get_document (update_status i st ts s) i
     = map_option (\<lambda>d. d\<lparr>d_status := st, d_updated_at := ts\<rparr>) (get_document s i)"
  unfolding get_document_def update_status_def by (simp add: find_map_update)

lemma error_write_rejects:
  assumes w: "faults en DbSetError = Some e'"
    and t: "fst (processDocument_try extractText data en s) = Inl e"
  shows "fst (processDocument data en s) = Inl e'"
    and "faults en DbSetProcessing = None \<Longrightarrow> get_document s (document_id data) \<noteq> None
      \<Longrightarrow> \<exists>d. get_document (snd (processDocument data en s)) (document_id data) = Some d
              \<and> d_status d = StProcessing"
proof -
  obtain s1 where t1: "processDocument_try extractText data en s = (Inl e, s1)"
    using t by (metis prod.collapse)
  have p: "processDocument data en s = (Inl e', s1)"
    using w t1 by (simp add: processDocument_def processDocument_with_def andThen_def)
  show "fst (processDocument data en s) = Inl e'" using p by simp
  assume "faults en DbSetProcessing = None" and ex: "get_document s (document_id data) \<noteq> None"
  from try_raises_documents[OF t1 this(1)]
  have "get_document s1 (document_id data)
      = get_document (update_status (document_id data) StProcessing (now en) s) (document_id data)"
    by (simp add: get_document_def)
  then show "\<exists>d. get_document (snd (processDocument data en s)) (document_id data) = Some d
              \<and> d_status d = StProcessing"
    using p ex by (auto simp: get_document_update_status)
qed

lemma try_success_returns:
  "fst (processDocument_try extractText data en s) = Inr u
   \<Longrightarrow> fst (processDocument data en s) = Inr ()"
  by (cases "processDocument_try extractText data en s")
     (simp add: processDocument_def processDocument_with_def)

text \<open>
  Claim C1, as the claim states it, fails: the \<open>UPDATE\<close> of the \<open>catch\<close> block is itself
  unguarded. When the embedding call rejects and the database then rejects the write of
  the \<open>error\<close> status, \<open>processDocument\<close> throws the database exception and the document
  is left in \<open>processing\<close> with no error message. And the message that is persisted is
  the exception's own, so it is empty when the exception's message is.
\<close>

theorem processDocument_error_write_rejects:
  "fst (processDocument msg0 env_down s0) = Inl (JsError ''db down'')
   \<and> map d_status (documents (snd (processDocument msg0 env_down s0))) = [StProcessing]
   \<and> map d_error_message (documents (snd (processDocument msg0 env_down s0))) = [None]
   \<and> fst (processDocument msg0 env_silent s0) = Inr ()
   \<and> map d_status (documents (snd (processDocument msg0 env_silent s0))) = [StError]
   \<and> map d_error_message (documents (snd (processDocument msg0 env_silent s0))) = [Some []]"
  by code_simp

text \<open>
  Claim C1, amended. \<open>processDocument\<close> returns when the \<open>try\<close> block raised nothing,
  and when it raised and the write of the \<open>error\<close> status does not reject. When it
  returns, the document (if its row exists) is \<open>ready\<close> if the \<open>try\<close> block raised
  nothing, and otherwise \<open>error\<close> with the message of the exception raised (empty when
  that message is empty), whatever step raised it. When the \<open>try\<close> block raised and the
  write of the \<open>error\<close> status rejects, \<open>processDocument\<close> throws the exception of that
  write, and the document is left in \<open>processing\<close> if the first status write had gone
  through. In particular, when the blob is there, the steps before the embedding loop
  do not reject, the embedding call rejects at chunk index \<open>k\<close> after the chunks
  \<open>0 .. k - 1\<close> went through (the claim's case is \<open>k = 2\<close> of 5 chunks) and the write of
  the \<open>error\<close> status does not reject, the chunk rows \<open>0 .. k - 1\<close> are persisted, chunk
  \<open>k\<close> is absent, and the document is in status \<open>error\<close> with the message of the
  embedding exception.
\<close>

theorem processDocument_error_boundary:
  "(faults en DbSetError = None \<longrightarrow> fst (processDocument data en s) = Inr ())
   \<and> (processDocument data en s = (Inr (), s') \<and> get_document s (document_id data) \<noteq> None
        \<longrightarrow> (\<exists>d. get_document s' (document_id data) = Some d
                \<and> (case fst (processDocument_try extractText data en s) of
                      Inr u \<Rightarrow> d_status d = StReady
                    | Inl e \<Rightarrow> d_status d = StError
                               \<and> d_error_message d = Some (exn_message e))))
   \<and> (faults en DbSetProcessing = None \<and> faults en FilesGet = None
        \<and> files s (file_key data) = Some content
        \<and> fst (extractText content (mime_type data) en s) = Inr txt
        \<and> faults en FilesPutText = None
        \<and> chunkText txt 512 64 = Some chunks \<and> k < length chunks
        \<and> (\<forall>j<k. faults en (AiEmbed j) = None \<and> faults en (VecUpsert j) = None
                   \<and> faults en (DbInsertChunk j) = None)
        \<and> faults en (AiEmbed k) = Some e
        \<and> (\<forall>j\<le>k. chunkId (document_id data) j \<notin> set (map ch_id (document_chunks s)))
        \<and> faults en DbSetError = None
        \<and> get_document s (document_id data) \<noteq> None
        \<longrightarrow> fst (processDocument data en s) = Inr ()
            \<and> (\<forall>j<k. chunkId (document_id data) j
                        \<in> set (map ch_id (document_chunks (snd (processDocument data en s)))))
            \<and> chunkId (document_id data) k
                 \<notin> set (map ch_id (document_chunks (snd (processDocument data en s))))
            \<and> (\<exists>d. get_document (snd (processDocument data en s)) (document_id data) = Some d
                    \<and> d_status d = StError
                    \<and> d_error_message d = Some (exn_message e)))
   \<and> (fst (processDocument_try extractText data en s) = Inr ()
        \<longrightarrow> fst (processDocument data en s) = Inr ())
   \<and> (fst (processDocument_try extractText data en s) = Inl e1
        \<and> faults en DbSetError = Some e2
        \<longrightarrow> fst (processDocument data en s) = Inl e2
            \<and> (faults en DbSetProcessing = None \<and> get_document s (document_id data) \<noteq> None
                 \<longrightarrow> (\<exists>d. get_document (snd (processDocument data en s)) (document_id data)
                             = Some d
                         \<and> d_status d = StProcessing)))"
proof (intro conjI impI)
  assume "faults en DbSetError = None"
  then show "fst (processDocument data en s) = Inr ()"
    unfolding processDocument_def by (rule processDocument_returns)
next
  assume "processDocument data en s = (Inr (), s') \<and> get_document s (document_id data) \<noteq> None"
  then show "\<exists>d. get_document s' (document_id data) = Some d
                \<and> (case fst (processDocument_try extractText data en s) of
                      Inr u \<Rightarrow> d_status d = StReady
                    | Inl e \<Rightarrow> d_status d = StError
                               \<and> d_error_message d = Some (exn_message e))"
    using processDocument_outcome by blast
next
  assume h: "faults en DbSetProcessing = None \<and> faults en FilesGet = None
        \<and> files s (file_key data) = Some content
        \<and> fst (extractText content (mime_type data) en s) = Inr txt
        \<and> faults en FilesPutText = None
        \<and> chunkText txt 512 64 = Some chunks \<and> k < length chunks
        \<and> (\<forall>j<k. faults en (AiEmbed j) = None \<and> faults en (VecUpsert j) = None
                   \<and> faults en (DbInsertChunk j) = None)
        \<and> faults en (AiEmbed k) = Some e
        \<and> (\<forall>j\<le>k. chunkId (document_id data) j \<notin> set (map ch_id (document_chunks s)))
        \<and> faults en DbSetError = None
        \<and> get_document s (document_id data) \<noteq> None"
  have "fst (processDocument data en s) = Inr ()
    \<and> (\<forall>j<k. chunkId (document_id data) j
                \<in> set (map ch_id (document_chunks (snd (processDocument data en s)))))
    \<and> chunkId (document_id data) k
         \<notin> set (map ch_id (document_chunks (snd (processDocument data en s))))
    \<and> (\<exists>d. get_document (snd (processDocument data en s)) (document_id data) = Some d
            \<and> d_status d = StError \<and> d_error_message d = Some (exn_message e))"
    by (rule embedding_failure_scenario[of en s data content "txt" chunks k e])
       (use h in \<open>blast+\<close>)
  then show "fst (processDocument data en s) = Inr ()"
    and "\<forall>j<k. chunkId (document_id data) j
                \<in> set (map ch_id (document_chunks (snd (processDocument data en s))))"
    and "chunkId (document_id data) k
         \<notin> set (map ch_id (document_chunks (snd (processDocument data en s))))"
    and "\<exists>d. get_document (snd (processDocument data en s)) (document_id data) = Some d
            \<and> d_status d = StError \<and> d_error_message d = Some (exn_message e)"
    by blast+
next
  assume "fst (processDocument_try extractText data en s) = Inr ()"
  then show "fst (processDocument data en s) = Inr ()" by (rule try_success_returns)
next
  assume h: "fst (processDocument_try extractText data en s) = Inl e1
        \<and> faults en DbSetError = Some e2"
  then show "fst (processDocument data en s) = Inl e2"
    using error_write_rejects(1) by blast
  assume "faults en DbSetProcessing = None \<and> get_document s (document_id data) \<noteq> None"
  then show "\<exists>d. get_document (snd (processDocument data en s)) (document_id data) = Some d
                \<and> d_status d = StProcessing"
    using h error_write_rejects(2) by blast
qed

theorem processDocument_error_boundary_witness:
  "faults env_fail DbSetError = None
   \<and> faults env_fail (AiEmbed 2) = Some (JsError ''embedding failed'')
   \<and> length (the (chunkText text5 512 64)) = 5
   \<and> fst (processDocument msg0 env_fail s5) = Inr ()
   \<and> chunkId ''d1'' 0 \<in> set (map ch_id (document_chunks (snd (processDocument msg0 env_fail s5))))
   \<and> chunkId ''d1'' 1 \<in> set (map ch_id (document_chunks (snd (processDocument msg0 env_fail s5))))
   \<and> chunkId ''d1'' 2 \<notin> set (map ch_id (document_chunks (snd (processDocument msg0 env_fail s5))))
   \<and> (\<exists>d. get_document (snd (processDocument msg0 env_fail s5)) ''d1'' = Some d
          \<and> d_status d = StError \<and> d_error_message d = Some ''embedding failed'')
   \<and> fst (processDocument_try extractText msg0 env0 s0) = Inr ()
   \<and> fst (processDocument msg0 env0 s0) = Inr ()
   \<and> fst (processDocument_try extractText msg0 env_down s0) = Inl (JsError ''embedding failed'')
   \<and> faults env_down DbSetError = Some (JsError ''db down'')
   \<and> faults env_down DbSetProcessing = None
   \<and> fst (processDocument msg0 env_down s0) = Inl (JsError ''db down'')
   \<and> (\<exists>d. get_document (snd (processDocument msg0 env_down s0)) ''d1'' = Some d
          \<and> d_status d = StProcessing)"
proof -
  have f: "faults env_fail DbSetProcessing = None" "faults env_fail FilesGet = None"
    "faults env_fail FilesPutText = None" "faults env_fail DbSetError = None"
    "faults env_fail (AiEmbed 2) = Some (JsError ''embedding failed'')"
    by (simp_all add: env_fail_def)
  have blob: "files s5 (file_key msg0) = Some text5"
    by (simp add: s5_def msg0_def)
  have ext: "fst (extractText text5 (mime_type msg0) env_fail s5) = Inr text5"
    by (simp add: extractText_def extracted_text_def andThen_def fault_def ret_def msg0_def
        env_fail_def env0_def)
  obtain chunks where ct: "chunkText text5 512 64 = Some chunks"
    using chunkText_512_64_returns by blast
  then have n: "length chunks = 5" using chunk_count_text5 by simp
  then have k: "2 < length chunks" by simp
  have before: "\<forall>j<2. faults env_fail (AiEmbed j) = None \<and> faults env_fail (VecUpsert j) = None
                   \<and> faults env_fail (DbInsertChunk j) = None"
    by (simp add: env_fail_def)
  have fresh: "\<forall>j\<le>2. chunkId (document_id msg0) j \<notin> set (map ch_id (document_chunks s5))"
    by (simp add: s5_def s0_def)
  have ex: "get_document s5 (document_id msg0) \<noteq> None"
    by (simp add: get_document_def s5_def s0_def doc0_def msg0_def)
  have id: "document_id msg0 = ''d1''" by (simp add: msg0_def)
  from processDocument_error_boundary[of env_fail msg0 s5 "snd (processDocument msg0 env_fail s5)"
      text5 text5 chunks 2 "JsError ''embedding failed''"]
    f blob ext ct k before fresh ex
  have r: "fst (processDocument msg0 env_fail s5) = Inr ()"
    and a: "\<forall>j<2. chunkId (document_id msg0) j
                \<in> set (map ch_id (document_chunks (snd (processDocument msg0 env_fail s5))))"
    and b: "chunkId (document_id msg0) 2
                \<notin> set (map ch_id (document_chunks (snd (processDocument msg0 env_fail s5))))"
    and c: "\<exists>d. get_document (snd (processDocument msg0 env_fail s5)) (document_id msg0) = Some d
            \<and> d_status d = StError
            \<and> d_error_message d = Some (exn_message (JsError ''embedding failed''))"
    by blast+
  from a have a01: "chunkId (document_id msg0) 0
                \<in> set (map ch_id (document_chunks (snd (processDocument msg0 env_fail s5))))"
    "chunkId (document_id msg0) 1
                \<in> set (map ch_id (document_chunks (snd (processDocument msg0 env_fail s5))))"
    by simp_all
  have t0: "fst (processDocument_try extractText msg0 env0 s0) = Inr ()"
    by code_simp
  from processDocument_error_boundary[where en = env0 and data = msg0 and s = s0] t0
  have r0: "fst (processDocument msg0 env0 s0) = Inr ()"
    by blast
  have td: "fst (processDocument_try extractText msg0 env_down s0)
              = Inl (JsError ''embedding failed'')"
    by code_simp
  have fd: "faults env_down DbSetError = Some (JsError ''db down'')"
    "faults env_down DbSetProcessing = None"
    by (simp_all add: env_down_def)
  have ex0: "get_document s0 (document_id msg0) \<noteq> None"
    by (simp add: get_document_def s0_def doc0_def msg0_def)
  from processDocument_error_boundary[where en = env_down and data = msg0 and s = s0
      and ?e1.0 = "JsError ''embedding failed''" and ?e2.0 = "JsError ''db down''"] td fd ex0
  have rd: "fst (processDocument msg0 env_down s0) = Inl (JsError ''db down'')"
    and sd: "\<exists>d. get_document (snd (processDocument msg0 env_down s0)) (document_id msg0) = Some d
          \<and> d_status d = StProcessing"
    by blast+
  show ?thesis using f r a01 b c n ct t0 r0 td fd rd sd unfolding id by simp
qed

section \<open>Upload: properties\<close>


lemma keys_processDocument:
  "processDocument message en s = (r, s') \<Longrightarrow> map doc_key (documents s') = map doc_key (documents s)"
  using keepsD[OF keeps_processDocument] by blast

lemma start_processing_result:
  assumes "start_processing message file en s = (Inr r, s1)"
  shows "r_id r = document_id message \<and> r_status r \<noteq> ''duplicate''
       \<and> map doc_key (documents s1) = map doc_key (documents s)"
proof (cases "has_queue en")
  case True
  then show ?thesis using assms unfolding start_processing_def
    by (auto elim!: andThen_InrE simp: modify_def ret_def fault_def split: option.splits)
next
  case False
  obtain r' s' where p: "processDocument message en s = (r', s')"
    by (cases "processDocument message en s")
  then show ?thesis using False assms keys_processDocument[OF p]
    by (cases r') (auto simp: start_processing_def)
qed

lemma upload_new_result:
  assumes "upload_new file W u en docId s = (Inr r, s1)"
  shows "r_id r = docId \<and> r_status r \<noteq> ''duplicate''
       \<and> map doc_key (documents s1)
           = map doc_key (documents s) @ [(docId, W, sha256 en (f_content file), f_name file)]
       \<and> docId \<notin> set (map d_id (documents s))"
proof -
  let ?mime = "if f_type file = [] then getMimeType (f_name file) else f_type file"
  let ?key = "''documents/'' @ W @ ''/'' @ docId @ ''/'' @ f_name file"
  let ?doc = "\<lparr>d_id = docId, d_workspace_id = W, d_user_id = u,
              d_title = f_name file, d_file_key = ?key, d_text_key = None,
              d_content_hash = sha256 en (f_content file), d_mime_type = ?mime,
              d_file_size_bytes = length (f_content file), d_status = StPending,
              d_error_message = None, d_created_at = now en, d_updated_at = now en\<rparr>"
  let ?msg = "\<lparr>m_type = ''document_uploaded'', document_id = docId,
              workspace_id = W, user_id = u, file_key = ?key, mime_type = ?mime\<rparr>"
  have ok: "?mime \<in> set allowedTypes"
    using assms by (auto simp: upload_new_def Let_def throw_def split: if_splits)
  then have "andThen (fault en FilesPut) (\<lambda>_.
           andThen (modify (\<lambda>s. s\<lparr>files := (files s)(?key \<mapsto> f_content file)\<rparr>)) (\<lambda>_.
           andThen (fault en DbInsertDocument) (\<lambda>_.
           andThen (insert_document ?doc) (\<lambda>_. start_processing ?msg file en)))) s = (Inr r, s1)"
    using assms by (simp add: upload_new_def Let_def)
  then obtain sa sb where ins: "insert_document ?doc sa = (Inr (), sb)"
    and docs: "documents sa = documents s"
    and sp: "start_processing ?msg file en sb = (Inr r, s1)"
    by (elim andThen_InrE) (auto simp: modify_def fault_def split: option.splits)
  from ins have fresh: "docId \<notin> set (map d_id (documents sa))"
    and sb: "documents sb = documents sa @ [?doc]"
    by (auto simp: insert_document_def split: if_splits)
  from start_processing_result[OF sp] show ?thesis
    using fresh sb docs by (simp add: doc_key_def)
qed


lemma find_doc_key:
  "map_option doc_key (find (\<lambda>d. d_workspace_id d = ws \<and> d_content_hash d = h) xs)
     = find (dup_key ws h) (map doc_key xs)"
  by (induction xs) (auto simp: doc_key_def dup_key_def)

lemma find_append_cases:
  "find P (xs @ ys) = (case find P xs of None \<Rightarrow> find P ys | Some x \<Rightarrow> Some x)"
  by (induction xs) auto

lemma select_duplicate_keys:
  "map_option doc_key (select_duplicate ws h s) = find (dup_key ws h) (map doc_key (documents s))"
  by (simp add: select_duplicate_def find_doc_key)

lemma uploadFile_cases:
  assumes "uploadFile file W u en s = (Inr r, s1)"
  shows "(\<exists>d. select_duplicate W (sha256 en (f_content file)) s = Some d
            \<and> r = \<lparr>r_id = d_id d, r_title = d_title d, r_status = ''duplicate'',
                    r_created_at = now en\<rparr>
            \<and> documents s1 = documents s)
       \<or> (select_duplicate W (sha256 en (f_content file)) s = None
            \<and> r_id r = uuid en (uuid_count s) \<and> r_status r \<noteq> ''duplicate''
            \<and> map doc_key (documents s1)
                = map doc_key (documents s)
                  @ [(uuid en (uuid_count s), W, sha256 en (f_content file), f_name file)]
            \<and> uuid en (uuid_count s) \<notin> set (map d_id (documents s)))"
proof -
  let ?sa = "s\<lparr>uuid_count := Suc (uuid_count s)\<rparr>"
  let ?h = "sha256 en (f_content file)"
  have sd: "select_duplicate W ?h ?sa = select_duplicate W ?h s"
    by (simp add: select_duplicate_def)
  from assms have rest:
    "(case select_duplicate W ?h s of
        Some d \<Rightarrow> ret \<lparr>r_id = d_id d, r_title = d_title d, r_status = ''duplicate'',
                       r_created_at = now en\<rparr>
      | None \<Rightarrow> upload_new file W u en (uuid en (uuid_count s))) ?sa = (Inr r, s1)"
    unfolding uploadFile_def
    by (elim andThen_InrE) (auto simp: randomUUID_def fault_def sd split: option.splits)
  show ?thesis
  proof (cases "select_duplicate W ?h s")
    case (Some d)
    then show ?thesis using rest by (auto simp: ret_def)
  next
    case None
    then have "upload_new file W u en (uuid en (uuid_count s)) ?sa = (Inr r, s1)"
      using rest by simp
    from upload_new_result[OF this] show ?thesis using None by simp
  qed
qed

lemma uploadFile_duplicate:
  assumes "select_duplicate W (sha256 en (f_content file)) s = Some d"
    and "faults en DbSelectDuplicate = None"
  shows "uploadFile file W u en s
     = (Inr \<lparr>r_id = d_id d, r_title = d_title d, r_status = ''duplicate'', r_created_at = now en\<rparr>,
        s\<lparr>uuid_count := Suc (uuid_count s)\<rparr>)"
  using assms
  by (simp add: uploadFile_def andThen_def randomUUID_def ret_def select_duplicate_def)

lemma uploadFile_then_found:
  assumes "uploadFile file W u en s = (Inr r, s1)"
  shows "\<exists>d. select_duplicate W (sha256 en (f_content file)) s1 = Some d \<and> d_id d = r_id r"
proof -
  let ?h = "sha256 en (f_content file)"
  from uploadFile_cases[OF assms] show ?thesis
  proof (elim disjE exE conjE)
    fix d
    assume "select_duplicate W ?h s = Some d"
      and "r = \<lparr>r_id = d_id d, r_title = d_title d, r_status = ''duplicate'', r_created_at = now en\<rparr>"
      and "documents s1 = documents s"
    then show ?thesis by (simp add: select_duplicate_def)
  next
    assume none: "select_duplicate W ?h s = None"
      and rid: "r_id r = uuid en (uuid_count s)"
      and keys: "map doc_key (documents s1)
                = map doc_key (documents s) @ [(uuid en (uuid_count s), W, ?h, f_name file)]"
    have "find (dup_key W ?h) (map doc_key (documents s)) = None"
      using none select_duplicate_keys[of W ?h s] by simp
    then have "find (dup_key W ?h) (map doc_key (documents s1))
                 = Some (uuid en (uuid_count s), W, ?h, f_name file)"
      unfolding keys by (simp add: find_append_cases dup_key_def)
    then have "map_option doc_key (select_duplicate W ?h s1)
                 = Some (uuid en (uuid_count s), W, ?h, f_name file)"
      by (simp add: select_duplicate_keys)
    then obtain d where "select_duplicate W ?h s1 = Some d"
      and "doc_key d = (uuid en (uuid_count s), W, ?h, f_name file)"
      by auto
    then show ?thesis using rid by (auto simp: doc_key_def)
  qed
qed


lemma select_duplicate_None_iff:
  "select_duplicate W h s = None
     \<longleftrightarrow> \<not> (\<exists>d\<in>set (documents s). d_workspace_id d = W \<and> d_content_hash d = h)"
  by (auto simp: select_duplicate_def find_None_iff)

lemma select_duplicate_SomeD:
  "select_duplicate W h s = Some d
   \<Longrightarrow> d \<in> set (documents s) \<and> d_workspace_id d = W \<and> d_content_hash d = h"
  by (auto simp: select_duplicate_def find_Some_iff in_set_conv_nth)

text \<open>
  Claim C5. When an upload to a workspace \<open>W\<close> has returned, the identifier it returned
  is that of a document row of \<open>W\<close> that carries the hash of the uploaded bytes; the
  answer is \<open>duplicate\<close> exactly when \<open>W\<close> had such a row before, and then the table is
  left as it was; otherwise the identifier is a new one and exactly one row, for these
  bytes in \<open>W\<close>, has been added. A second upload of the same bytes to \<open>W\<close> (whatever the
  file name, the user and the mode) returns the same identifier with status \<open>duplicate\<close>
  and changes nothing but the count of identifiers handed out. When no row of two
  different workspaces carries the hash, uploading the bytes to the one and then to the
  other adds exactly two rows with different identifiers, one in each workspace, and
  neither answer is \<open>duplicate\<close>.
\<close>

theorem upload_deduplicates_per_workspace:
  "(uploadFile f1 W u1 en1 s = (Inr r1, s1) \<and> f_content f2 = f_content f1
      \<and> sha256 en2 = sha256 en1 \<and> faults en2 DbSelectDuplicate = None
      \<longrightarrow> (\<exists>d\<in>set (documents s1). d_id d = r_id r1 \<and> d_workspace_id d = W
                \<and> d_content_hash d = sha256 en1 (f_content f1))
          \<and> ((r_status r1 = ''duplicate'')
               = (\<exists>d\<in>set (documents s). d_workspace_id d = W
                     \<and> d_content_hash d = sha256 en1 (f_content f1)))
          \<and> (if r_status r1 = ''duplicate'' then documents s1 = documents s
              else r_id r1 \<notin> set (map d_id (documents s))
                   \<and> map doc_key (documents s1)
                     = map doc_key (documents s)
                       @ [(r_id r1, W, sha256 en1 (f_content f1), f_name f1)])
          \<and> (\<exists>r2. uploadFile f2 W u2 en2 s1
                      = (Inr r2, s1\<lparr>uuid_count := Suc (uuid_count s1)\<rparr>)
                  \<and> r_id r2 = r_id r1 \<and> r_status r2 = ''duplicate''))
   \<and> (Wa \<noteq> Wb \<and> f_content fb = f_content fa \<and> sha256 enb = sha256 ena
      \<and> (\<forall>d\<in>set (documents s). d_content_hash d = sha256 ena (f_content fa)
             \<longrightarrow> d_workspace_id d \<noteq> Wa \<and> d_workspace_id d \<noteq> Wb)
      \<and> uploadFile fa Wa ua ena s = (Inr ra, sa) \<and> uploadFile fb Wb ub enb sa = (Inr rb, sb)
      \<longrightarrow> r_id ra \<noteq> r_id rb \<and> r_status ra \<noteq> ''duplicate'' \<and> r_status rb \<noteq> ''duplicate''
          \<and> map doc_key (documents sb)
            = map doc_key (documents s)
              @ [(r_id ra, Wa, sha256 ena (f_content fa), f_name fa),
                 (r_id rb, Wb, sha256 ena (f_content fa), f_name fb)])"
proof (intro conjI impI)
  assume h: "uploadFile f1 W u1 en1 s = (Inr r1, s1) \<and> f_content f2 = f_content f1
      \<and> sha256 en2 = sha256 en1 \<and> faults en2 DbSelectDuplicate = None"
  let ?h = "sha256 en1 (f_content f1)"
  from h have first: "uploadFile f1 W u1 en1 s = (Inr r1, s1)"
    and same: "sha256 en2 (f_content f2) = ?h"
    and nofault: "faults en2 DbSelectDuplicate = None"
    by simp_all
  from uploadFile_then_found[OF first] obtain d
    where d: "select_duplicate W ?h s1 = Some d" "d_id d = r_id r1"
    by blast
  from select_duplicate_SomeD[OF d(1)] d(2)
  show "\<exists>d\<in>set (documents s1). d_id d = r_id r1 \<and> d_workspace_id d = W
            \<and> d_content_hash d = ?h"
    by blast
  have "select_duplicate W (sha256 en2 (f_content f2)) s1 = Some d"
    using d(1) same by simp
  from uploadFile_duplicate[OF this nofault, of u2] d(2)
  show "\<exists>r2. uploadFile f2 W u2 en2 s1 = (Inr r2, s1\<lparr>uuid_count := Suc (uuid_count s1)\<rparr>)
              \<and> r_id r2 = r_id r1 \<and> r_status r2 = ''duplicate''"
    by simp
  from uploadFile_cases[OF first]
  consider (dup) d0 where "select_duplicate W ?h s = Some d0" "r_status r1 = ''duplicate''"
      "documents s1 = documents s"
    | (new) "select_duplicate W ?h s = None" "r_status r1 \<noteq> ''duplicate''"
      "r_id r1 \<notin> set (map d_id (documents s))"
      "map doc_key (documents s1) = map doc_key (documents s) @ [(r_id r1, W, ?h, f_name f1)]"
    by auto
  then have "((r_status r1 = ''duplicate'')
               = (\<exists>d\<in>set (documents s). d_workspace_id d = W \<and> d_content_hash d = ?h))
          \<and> (if r_status r1 = ''duplicate'' then documents s1 = documents s
              else r_id r1 \<notin> set (map d_id (documents s))
                   \<and> map doc_key (documents s1)
                     = map doc_key (documents s) @ [(r_id r1, W, ?h, f_name f1)])"
  proof cases
    case dup
    then show ?thesis using select_duplicate_SomeD[OF dup(1)] by auto
  next
    case new
    then show ?thesis using select_duplicate_None_iff[of W ?h s] by auto
  qed
  then show "(r_status r1 = ''duplicate'')
               = (\<exists>d\<in>set (documents s). d_workspace_id d = W \<and> d_content_hash d = ?h)"
    and "if r_status r1 = ''duplicate'' then documents s1 = documents s
              else r_id r1 \<notin> set (map d_id (documents s))
                   \<and> map doc_key (documents s1)
                     = map doc_key (documents s) @ [(r_id r1, W, ?h, f_name f1)]"
    by blast+
next
  assume h: "Wa \<noteq> Wb \<and> f_content fb = f_content fa \<and> sha256 enb = sha256 ena
      \<and> (\<forall>d\<in>set (documents s). d_content_hash d = sha256 ena (f_content fa)
             \<longrightarrow> d_workspace_id d \<noteq> Wa \<and> d_workspace_id d \<noteq> Wb)
      \<and> uploadFile fa Wa ua ena s = (Inr ra, sa) \<and> uploadFile fb Wb ub enb sa = (Inr rb, sb)"
  let ?h = "sha256 ena (f_content fa)"
  let ?ida = "uuid ena (uuid_count s)" and ?idb = "uuid enb (uuid_count sa)"
  from h have ne: "Wa \<noteq> Wb" and hb: "sha256 enb (f_content fb) = ?h"
    and absent: "\<forall>d\<in>set (documents s). d_content_hash d = ?h
             \<longrightarrow> d_workspace_id d \<noteq> Wa \<and> d_workspace_id d \<noteq> Wb"
    and ua: "uploadFile fa Wa ua ena s = (Inr ra, sa)"
    and ub: "uploadFile fb Wb ub enb sa = (Inr rb, sb)"
    by simp_all
  have na: "select_duplicate Wa ?h s = None" and nb: "select_duplicate Wb ?h s = None"
    using absent by (auto simp: select_duplicate_None_iff)
  from uploadFile_cases[OF ua] na
  have ra: "r_id ra = ?ida" "r_status ra \<noteq> ''duplicate''"
    and ka: "map doc_key (documents sa) = map doc_key (documents s) @ [(?ida, Wa, ?h, f_name fa)]"
    by auto
  have "find (dup_key Wb ?h) (map doc_key (documents s)) = None"
    using nb select_duplicate_keys[of Wb ?h s] by simp
  then have "find (dup_key Wb ?h) (map doc_key (documents sa)) = None"
    unfolding ka using ne by (simp add: find_append_cases dup_key_def)
  then have nb': "select_duplicate Wb (sha256 enb (f_content fb)) sa = None"
    using select_duplicate_keys[of Wb ?h sa] hb by simp
  from uploadFile_cases[OF ub] nb'
  have rb: "r_id rb = ?idb" "r_status rb \<noteq> ''duplicate''"
    and kb: "map doc_key (documents sb)
               = map doc_key (documents sa) @ [(?idb, Wb, ?h, f_name fb)]"
    and fresh: "?idb \<notin> set (map d_id (documents sa))"
    using hb by auto
  have "map d_id (documents sa) = map fst (map doc_key (documents sa))"
    by (simp add: doc_key_def comp_def)
  then have "?ida \<in> set (map d_id (documents sa))"
    unfolding ka by simp
  then have "?ida \<noteq> ?idb" using fresh by auto
  then show "r_id ra \<noteq> r_id rb" using ra rb by simp
  show "r_status ra \<noteq> ''duplicate''" by (rule ra(2))
  show "r_status rb \<noteq> ''duplicate''" by (rule rb(2))
  show "map doc_key (documents sb)
            = map doc_key (documents s)
              @ [(r_id ra, Wa, ?h, f_name fa), (r_id rb, Wb, ?h, f_name fb)]"
    unfolding kb ka ra(1) rb(1) by simp
qed

theorem upload_deduplicates_per_workspace_witness:
  "fst (uploadFile file0 ''w1'' ''u1'' env0 s_empty)
     = Inr \<lparr>r_id = ''uuid-0'', r_title = ''a.txt'', r_status = ''ready'',
            r_created_at = ''2024-01-01T00:00:00.000Z''\<rparr>
   \<and> fst (uploadFile file0 ''w1'' ''u1'' env0 (snd (uploadFile file0 ''w1'' ''u1'' env0 s_empty)))
     = Inr \<lparr>r_id = ''uuid-0'', r_title = ''a.txt'', r_status = ''duplicate'',
            r_created_at = ''2024-01-01T00:00:00.000Z''\<rparr>
   \<and> fst (uploadFile file0 ''w2'' ''u1'' env0 (snd (uploadFile file0 ''w1'' ''u1'' env0 s_empty)))
     = Inr \<lparr>r_id = ''uuid-2'', r_title = ''a.txt'', r_status = ''ready'',
            r_created_at = ''2024-01-01T00:00:00.000Z''\<rparr>
   \<and> (\<exists>d\<in>set (documents (snd (uploadFile file0 ''w1'' ''u1'' env0 s_empty))).
          d_id d = ''uuid-0'' \<and> d_workspace_id d = ''w1''
          \<and> d_content_hash d = sha256 env0 (f_content file0))
   \<and> map doc_key (documents (snd (uploadFile file0 ''w1'' ''u1'' env0 s_empty)))
     = [(''uuid-0'', ''w1'', sha256 env0 (f_content file0), f_name file0)]
   \<and> (\<exists>r2. uploadFile file0 ''w1'' ''u1'' env0 (snd (uploadFile file0 ''w1'' ''u1'' env0 s_empty))
               = (Inr r2, (snd (uploadFile file0 ''w1'' ''u1'' env0 s_empty))
                     \<lparr>uuid_count := Suc (uuid_count
                         (snd (uploadFile file0 ''w1'' ''u1'' env0 s_empty)))\<rparr>)
          \<and> r_id r2 = ''uuid-0'' \<and> r_status r2 = ''duplicate'')
   \<and> map doc_key (documents (snd (uploadFile file0 ''w2'' ''u1'' env0
          (snd (uploadFile file0 ''w1'' ''u1'' env0 s_empty)))))
     = [(''uuid-0'', ''w1'', sha256 env0 (f_content file0), f_name file0),
        (''uuid-2'', ''w2'', sha256 env0 (f_content file0), f_name file0)]"
proof -
  let ?r1 = "\<lparr>r_id = ''uuid-0'', r_title = ''a.txt'', r_status = ''ready'',
            r_created_at = ''2024-01-01T00:00:00.000Z''\<rparr>"
  let ?r3 = "\<lparr>r_id = ''uuid-2'', r_title = ''a.txt'', r_status = ''ready'',
            r_created_at = ''2024-01-01T00:00:00.000Z''\<rparr>"
  let ?s1 = "snd (uploadFile file0 ''w1'' ''u1'' env0 s_empty)"
  let ?s3 = "snd (uploadFile file0 ''w2'' ''u1'' env0 ?s1)"
  have a: "fst (uploadFile file0 ''w1'' ''u1'' env0 s_empty) = Inr ?r1"
    by code_simp
  have b: "fst (uploadFile file0 ''w1'' ''u1'' env0 ?s1)
     = Inr \<lparr>r_id = ''uuid-0'', r_title = ''a.txt'', r_status = ''duplicate'',
            r_created_at = ''2024-01-01T00:00:00.000Z''\<rparr>"
    by code_simp
  have c: "fst (uploadFile file0 ''w2'' ''u1'' env0 ?s1) = Inr ?r3"
    by code_simp
  have u1: "uploadFile file0 ''w1'' ''u1'' env0 s_empty = (Inr ?r1, ?s1)"
    using a by (metis prod.collapse)
  have u3: "uploadFile file0 ''w2'' ''u1'' env0 ?s1 = (Inr ?r3, ?s3)"
    using c by (metis prod.collapse)
  have nf: "faults env0 DbSelectDuplicate = None" by (simp add: env0_def)
  have e: "documents s_empty = []" by (simp add: s_empty_def)
  have ne: "''w1'' \<noteq> ''w2''" by simp
  note inst = upload_deduplicates_per_workspace[where ?f1.0 = file0 and W = "''w1''"
      and ?u1.0 = "''u1''" and ?en1.0 = env0 and s = s_empty and ?r1.0 = ?r1 and ?s1.0 = ?s1
      and ?f2.0 = file0 and ?en2.0 = env0 and ?u2.0 = "''u1''" and Wa = "''w1''"
      and Wb = "''w2''" and fa = file0 and fb = file0 and ena = env0 and enb = env0
      and ua = "''u1''" and ra = ?r1 and sa = ?s1 and ub = "''u1''" and rb = ?r3 and sb = ?s3]
  from inst u1 nf
  have d1: "\<exists>d\<in>set (documents ?s1). d_id d = ''uuid-0'' \<and> d_workspace_id d = ''w1''
          \<and> d_content_hash d = sha256 env0 (f_content file0)"
    and d2: "if r_status ?r1 = ''duplicate'' then documents ?s1 = documents s_empty
        else r_id ?r1 \<notin> set (map d_id (documents s_empty))
           \<and> map doc_key (documents ?s1)
             = map doc_key (documents s_empty)
               @ [(r_id ?r1, ''w1'', sha256 env0 (f_content file0), f_name file0)]"
    and d3: "\<exists>r2. uploadFile file0 ''w1'' ''u1'' env0 ?s1
               = (Inr r2, ?s1\<lparr>uuid_count := Suc (uuid_count ?s1)\<rparr>)
          \<and> r_id r2 = r_id ?r1 \<and> r_status r2 = ''duplicate''"
    by simp_all
  from d2 have d2': "map doc_key (documents ?s1)
     = [(''uuid-0'', ''w1'', sha256 env0 (f_content file0), f_name file0)]"
    by (simp add: e)
  from inst ne e u1 u3
  have f: "map doc_key (documents ?s3)
     = [(''uuid-0'', ''w1'', sha256 env0 (f_content file0), f_name file0),
        (''uuid-2'', ''w2'', sha256 env0 (f_content file0), f_name file0)]"
    by simp
  from d3 have d3': "\<exists>r2. uploadFile file0 ''w1'' ''u1'' env0 ?s1
               = (Inr r2, ?s1\<lparr>uuid_count := Suc (uuid_count ?s1)\<rparr>)
          \<and> r_id r2 = ''uuid-0'' \<and> r_status r2 = ''duplicate''"
    by simp
  show ?thesis using a b c d1 d2' d3' f by blast
qed

section \<open>Chunker, re-ingestion and tag counters: further properties\<close>


lemma split_ws_aux_nonempty: "split_ws_aux b cur t \<noteq> []"
  by (induction t arbitrary: b cur) auto

lemma js_split_ws_nonempty: "js_split_ws t \<noteq> []"
  by (simp add: js_split_ws_def split_ws_aux_nonempty)

lemma split_ws_aux_no_space:
  "\<forall>c\<in>set t. \<not> is_space c \<Longrightarrow> split_ws_aux b cur t = [rev cur @ t]"
  by (induction t arbitrary: b cur) auto

text \<open>
  A text without white space - a single word, or the empty text - yields exactly one
  chunk.
\<close>

lemma chunkText_without_space:
  assumes "\<forall>c\<in>set t. \<not> is_space c"
  shows "chunkText t 512 64 = Some [\<lparr>c_text = t, tokenCount = 2\<rparr>]"
  using assms
  by (simp add: chunkText_def js_split_ws_def split_ws_aux_no_space chunk_loop.simps js_slice_def)

lemma chunk_loop_extends:
  assumes "ov < wpc"
  shows "\<exists>r. chunk_loop ws wpc ov start chunks = Some r
           \<and> (start < int (length ws) \<longrightarrow> length chunks < length r)
           \<and> length chunks \<le> length r"
proof (induction "nat (int (length ws) - start)" arbitrary: start chunks rule: less_induct)
  case less
  show ?case
  proof (cases "start < int (length ws)")
    case False
    then show ?thesis by (subst chunk_loop.simps) simp
  next
    case True
    let ?e = "min (start + wpc) (int (length ws))"
    let ?c = "\<lparr>c_text = js_join_sp (js_slice ws start ?e),
                tokenCount = (4 * length (js_slice ws start ?e) + 2) div 3\<rparr>"
    show ?thesis
    proof (cases "?e - ov \<ge> int (length ws) - ov")
      case brk: True
      then show ?thesis using True by (subst chunk_loop.simps) (simp add: Let_def)
    next
      case cont: False
      then have "nat (int (length ws) - (?e - ov)) < nat (int (length ws) - start)"
        using True assms by (auto simp: min_def split: if_splits)
      from less[OF this, of "chunks @ [?c]"] obtain r where
        "chunk_loop ws wpc ov (?e - ov) (chunks @ [?c]) = Some r"
        "length (chunks @ [?c]) \<le> length r"
        by blast
      then show ?thesis using True cont by (subst chunk_loop.simps) (simp add: Let_def)
    qed
  qed
qed

lemma chunkText_512_64_nonempty: "the (chunkText t 512 64) \<noteq> []"
proof -
  have "(0::int) < int (length (js_split_ws t))"
    using js_split_ws_nonempty[of t] by simp
  with chunk_loop_extends[of 48 384 "js_split_ws t" 0 "[]"]
  show ?thesis by (auto simp: chunkText_def)
qed


lemma embed_chunk_success:
  assumes "embed_chunk data en i c s = (Inr u, s')"
  shows "chunkId (document_id data) i \<notin> set (map ch_id (document_chunks s))
       \<and> map ch_id (document_chunks s') = map ch_id (document_chunks s) @ [chunkId (document_id data) i]"
  using assms unfolding embed_chunk_def
  by (elim andThen_InrE)
     (auto simp: fault_def modify_def insert_chunk_def split: option.splits if_splits)

lemma embed_chunks_success_first:
  assumes "embed_chunks data en i (c # cs) s = (Inr u, s')"
  shows "chunkId (document_id data) i \<notin> set (map ch_id (document_chunks s))"
proof -
  obtain r s1 where e: "embed_chunk data en i c s = (r, s1)" by (cases "embed_chunk data en i c s")
  with assms obtain v where "r = Inr v" by (cases r) auto
  with e embed_chunk_success show ?thesis by blast
qed

lemma embed_chunks_success:
  assumes "embed_chunks data en i cs s = (Inr u, s')"
  shows "map ch_id (document_chunks s')
           = map ch_id (document_chunks s) @ map (chunkId (document_id data)) [i..<i + length cs]"
  using assms
proof (induction cs arbitrary: i s)
  case Nil
  then show ?case by simp
next
  case (Cons c cs)
  obtain r s1 where e: "embed_chunk data en i c s = (r, s1)" by (cases "embed_chunk data en i c s")
  with Cons.prems obtain v where r: "r = Inr v" by (cases r) auto
  with e Cons.prems have rest: "embed_chunks data en (Suc i) cs s1 = (Inr u, s')" by simp
  from embed_chunk_success e r have
    "map ch_id (document_chunks s1) = map ch_id (document_chunks s) @ [chunkId (document_id data) i]"
    by blast
  moreover have "[i..<i + length (c # cs)] = i # [Suc i..<Suc i + length cs]"
    by (simp add: upt_conv_Cons del: upt_Suc)
  ultimately show ?case using Cons.IH[OF rest] by simp
qed

lemma keeps_chunks_store_tag: "keeps (\<lambda>s. G (document_chunks s)) (store_tag data en j tg)"
  by (simp add: keeps_def store_tag_def andThen_def fault_def ret_def randomUUID_def
      insert_tag_def insert_document_tag_def split: option.splits)

lemma keeps_chunks_store_tags: "keeps (\<lambda>s. G (document_chunks s)) (store_tags data en j tgs)"
proof (induction tgs arbitrary: j)
  case Nil
  show ?case by (simp add: keeps_def)
next
  case (Cons tg tgs)
  show ?case
    unfolding keeps_def
  proof
    fix s
    obtain r s1 where st: "store_tag data en j tg s = (r, s1)" by (cases "store_tag data en j tg s")
    have 1: "G (document_chunks s1) = G (document_chunks s)"
      using keepsD[OF keeps_chunks_store_tag st] .
    show "G (document_chunks (snd (store_tags data en j (tg # tgs) s))) = G (document_chunks s)"
    proof (cases r)
      case (Inl e)
      then show ?thesis using st 1 by simp
    next
      case (Inr u)
      then show ?thesis using st 1 Cons[of "Suc j"] by (simp add: keeps_def)
    qed
  qed
qed

text \<open>
  What a completed \<open>try\<close> block did on the way: it inserted the row of chunk 0 when that
  identifier was not yet in the table.
\<close>

lemma process_blob_success_chunk0:
  assumes "process_blob extractText data en content s = (Inr u, s')"
  shows "chunkId (document_id data) 0 \<notin> set (map ch_id (document_chunks s))
       \<and> chunkId (document_id data) 0 \<in> set (map ch_id (document_chunks s'))"
proof -
  from assms obtain t s1 s2 s3 s4 tgs s5 s6 s7 x2 x3 x4 x6 x7 where
    e1: "extractText content (mime_type data) en s = (Inr t, s1)"
    and e2: "fault en FilesPutText s1 = (Inr x2, s2)"
    and e3: "modify (\<lambda>s. s\<lparr>files := (files s)(''text/'' @ document_id data @ ''.txt'' \<mapsto> t)\<rparr>) s2
               = (Inr x3, s3)"
    and e4: "embed_chunks data en 0 (the (chunkText t 512 64)) s3 = (Inr x4, s4)"
    and e5: "autoTag t (workspace_id data) en s4 = (Inr tgs, s5)"
    and e6: "store_tags data en 0 tgs s5 = (Inr x6, s6)"
    and e7: "fault en DbSetReady s6 = (Inr x7, s7)"
    and e8: "modify (update_ready (document_id data) (''text/'' @ document_id data @ ''.txt'')
               (now en)) s7 = (Inr u, s')"
    unfolding process_blob_def by (elim andThen_InrE) blast
  have c3: "document_chunks s3 = document_chunks s"
    using keepsD[OF keeps_extractText e1, of document_chunks]
      keepsD[OF keeps_fault e2, of document_chunks] e3
    by (auto simp: modify_def)
  have c8: "document_chunks s' = document_chunks s4"
    using keepsD[OF keeps_autoTag e5, of document_chunks]
      keepsD[OF keeps_chunks_store_tags e6, of "\<lambda>x. x"]
      keepsD[OF keeps_fault e7, of document_chunks] e8
    by (auto simp: modify_def update_ready_def)
  obtain c cs where cs: "the (chunkText t 512 64) = c # cs"
    using chunkText_512_64_nonempty[of t] by (cases "the (chunkText t 512 64)") auto
  from embed_chunks_success_first[of data en 0 c cs s3 x4 s4] e4 cs c3
  have a: "chunkId (document_id data) 0 \<notin> set (map ch_id (document_chunks s))" by simp
  have "chunkId (document_id data) 0
          \<in> set (map (chunkId (document_id data)) [0..<0 + length (the (chunkText t 512 64))])"
    unfolding cs by (simp del: upt_Suc)
  then have "chunkId (document_id data) 0 \<in> set (map ch_id (document_chunks s4))"
    unfolding embed_chunks_success[OF e4] by simp
  then show ?thesis using a c8 by simp
qed

lemma try_success_chunk0:
  assumes "processDocument_try extractText data en s = (Inr u, s')"
  shows "chunkId (document_id data) 0 \<notin> set (map ch_id (document_chunks s))
       \<and> chunkId (document_id data) 0 \<in> set (map ch_id (document_chunks s'))"
proof -
  from assms obtain s1 s2 s3 s4 content x1 x2 x3 where
    e1: "fault en DbSetProcessing s = (Inr x1, s1)"
    and e2: "modify (update_status (document_id data) StProcessing (now en)) s1 = (Inr x2, s2)"
    and e3: "fault en FilesGet s2 = (Inr x3, s3)"
    and e4: "get_blob data s3 = (Inr content, s4)"
    and e5: "process_blob extractText data en content s4 = (Inr u, s')"
    unfolding processDocument_try_def by (elim andThen_InrE) blast
  have "document_chunks s4 = document_chunks s"
    using keepsD[OF keeps_fault e1, of document_chunks] e2
      keepsD[OF keeps_fault e3, of document_chunks] keepsD[OF keeps_get_blob e4, of document_chunks]
    by (auto simp: modify_def update_status_def)
  with process_blob_success_chunk0[OF e5] show ?thesis by simp
qed

text \<open>
  Once the \<open>try\<close> block has completed for a document, it raises in every later run for
  that document, whatever the environment: the row of chunk 0 is in the way.
\<close>

lemma second_run_always_raises:
  assumes "processDocument_try extractText data en s = (Inr u, s1)"
  shows "\<exists>e s2. processDocument_try extractText data en2 s1 = (Inl e, s2)"
proof -
  obtain r s2 where t: "processDocument_try extractText data en2 s1 = (r, s2)"
    by (cases "processDocument_try extractText data en2 s1")
  show ?thesis
  proof (cases r)
    case (Inl e)
    then show ?thesis using t by blast
  next
    case (Inr v)
    with t try_success_chunk0[of data en2 s1 v s2] try_success_chunk0[OF assms]
    show ?thesis by simp
  qed
qed

lemma second_run_ends_in_error:
  assumes first: "processDocument_try extractText data en s = (Inr u, s1)"
    and second: "processDocument data en2 s1 = (Inr (), s2)"
    and ex: "get_document s1 (document_id data) \<noteq> None"
  shows "\<exists>d. get_document s2 (document_id data) = Some d \<and> d_status d = StError"
proof -
  from second_run_always_raises[OF first, of en2] obtain e s' where
    "processDocument_try extractText data en2 s1 = (Inl e, s')" by blast
  with processDocument_outcome[OF second ex] show ?thesis by auto
qed


text \<open>
  \<open>addTagsToDocument\<close> keeps the counters consistent: it counts exactly the associations
  it inserts.
\<close>

lemma addTagsToDocument_usage_consistent:
  "usage_consistent s \<Longrightarrow> usage_consistent (addTagsToDocument documentId tagIds source en s)"
proof (induction tagIds arbitrary: s)
  case Nil
  then show ?case by simp
next
  case (Cons tagId tagIds)
  show ?case
  proof (cases "list_ex (\<lambda>r. dt_document_id r = documentId \<and> dt_tag_id r = tagId) (document_tags s)")
    case True
    then show ?thesis using Cons by simp
  next
    case False
    let ?s' = "s\<lparr>document_tags := document_tags s @
                  [\<lparr>dt_document_id = documentId, dt_tag_id = tagId, dt_source = source,
                    dt_confidence = None, dt_created_at = now en\<rparr>],
               tags := map (\<lambda>t. if t_id t = tagId
                                 then t\<lparr>usage_count := usage_count t + 1\<rparr> else t) (tags s)\<rparr>"
    have "usage_consistent ?s'"
      using Cons.prems by (auto simp: usage_consistent_def list_all_iff)
    then have "usage_consistent (addTagsToDocument documentId tagIds source en ?s')"
      by (rule Cons.IH)
    then show ?thesis using False by simp
  qed
qed

text \<open>
  The two other writers of associations do not: removing a tag from a document that
  does not carry it still decrements the counter, and deleting a document removes its
  associations without touching any counter.
\<close>

lemma removeTagsFromDocument_breaks_usage_count:
  "usage_consistent s_search
   \<and> length (document_tags (removeTagsFromDocument ''z'' [''t1''] s_search)) = 4
   \<and> map usage_count (tags (removeTagsFromDocument ''z'' [''t1''] s_search)) = [3]
   \<and> \<not> usage_consistent (removeTagsFromDocument ''z'' [''t1''] s_search)"
  by code_simp

lemma delete_document_breaks_usage_count:
  "usage_consistent s_search
   \<and> length (document_tags (delete_document ''a'' s_search)) = 3
   \<and> map usage_count (tags (delete_document ''a'' s_search)) = [4]
   \<and> \<not> usage_consistent (delete_document ''a'' s_search)"
  by code_simp

section \<open>Queued and inline mode: properties\<close>

subsection \<open>The pipeline does not read the mode\<close>

lemma fault_mode: "fault (en\<lparr>has_queue := b\<rparr>) c = fault en c"
  by (rule ext) (simp add: fault_def)

lemma extractWithAI_mode:
  "extractWithAI content mt (en\<lparr>has_queue := b\<rparr>) = extractWithAI content mt en"
  by (simp add: extractWithAI_def)

lemma extracted_text_mode:
  "extracted_text content mt (en\<lparr>has_queue := b\<rparr>) = extracted_text content mt en"
  by (simp add: extracted_text_def extractWithAI_mode cong: option.case_cong)

lemma extractText_mode: "extractText content mt (en\<lparr>has_queue := b\<rparr>) = extractText content mt en"
  by (simp add: extractText_def extracted_text_mode fault_mode)

lemma randomUUID_mode: "randomUUID (en\<lparr>has_queue := b\<rparr>) = randomUUID en"
  by (rule ext) (simp add: randomUUID_def)

lemma embed_chunk_mode: "embed_chunk data (en\<lparr>has_queue := b\<rparr>) i c = embed_chunk data en i c"
  by (simp add: embed_chunk_def fault_mode)

lemma embed_chunks_mode:
  "embed_chunks data (en\<lparr>has_queue := b\<rparr>) i cs s = embed_chunks data en i cs s"
  by (induction cs arbitrary: i s) (simp_all add: embed_chunk_mode split: prod.splits sum.splits)

lemma autoTag_mode: "autoTag txt ws (en\<lparr>has_queue := b\<rparr>) = autoTag txt ws en"
  by (simp add: autoTag_def fault_mode Let_def)

lemma store_tag_mode: "store_tag data (en\<lparr>has_queue := b\<rparr>) j tg = store_tag data en j tg"
  by (simp add: store_tag_def fault_mode randomUUID_mode cong: option.case_cong)

lemma store_tags_mode:
  "store_tags data (en\<lparr>has_queue := b\<rparr>) j tgs s = store_tags data en j tgs s"
  by (induction tgs arbitrary: j s) (simp_all add: store_tag_mode split: prod.splits sum.splits)

lemma process_blob_mode:
  "process_blob extractText data (en\<lparr>has_queue := b\<rparr>) content
     = process_blob extractText data en content"
proof -
  have e: "embed_chunks data (en\<lparr>has_queue := b\<rparr>) i cs = embed_chunks data en i cs" for i cs
    by (rule ext) (rule embed_chunks_mode)
  have t: "store_tags data (en\<lparr>has_queue := b\<rparr>) j tgs = store_tags data en j tgs" for j tgs
    by (rule ext) (rule store_tags_mode)
  show ?thesis
    by (simp add: process_blob_def extractText_mode fault_mode autoTag_mode e t)
qed

lemma processDocument_try_mode:
  "processDocument_try extractText data (en\<lparr>has_queue := b\<rparr>)
     = processDocument_try extractText data en"
  by (simp add: processDocument_try_def fault_mode process_blob_mode)

lemma processDocument_mode:
  "processDocument data (en\<lparr>has_queue := b\<rparr>) = processDocument data en"
  by (rule ext)
     (simp add: processDocument_def processDocument_with_def processDocument_try_mode fault_mode
        split: prod.splits sum.splits)

subsection \<open>The pipeline ignores the queue\<close>

lemma ignores_queueD:
  "ignores_queue m \<Longrightarrow> m s = (r, s')
   \<Longrightarrow> m (s\<lparr>processing_queue := q\<rparr>) = (r, s'\<lparr>processing_queue := q\<rparr>)"
  by (simp add: ignores_queue_def)

lemma ignores_queue_keeps:
  assumes "ignores_queue m"
  shows "processing_queue (snd (m s)) = processing_queue s"
proof -
  have "m (s\<lparr>processing_queue := processing_queue s\<rparr>)
          = (fst (m s), (snd (m s))\<lparr>processing_queue := processing_queue s\<rparr>)"
    using assms unfolding ignores_queue_def by blast
  moreover have "s\<lparr>processing_queue := processing_queue s\<rparr> = s" by simp
  ultimately have "m s = (fst (m s), (snd (m s))\<lparr>processing_queue := processing_queue s\<rparr>)"
    by (simp only:)
  then have "snd (m s)
      = snd (fst (m s), (snd (m s))\<lparr>processing_queue := processing_queue s\<rparr>)"
    by (rule arg_cong[where f = snd])
  then have "snd (m s) = (snd (m s))\<lparr>processing_queue := processing_queue s\<rparr>"
    by (simp only: snd_conv)
  then have "processing_queue (snd (m s))
      = processing_queue ((snd (m s))\<lparr>processing_queue := processing_queue s\<rparr>)"
    by (rule arg_cong[where f = processing_queue])
  also have "\<dots> = processing_queue s" by simp
  finally show ?thesis .
qed

lemma ignores_queue_ret: "ignores_queue (ret x)"
  by (simp add: ignores_queue_def ret_def)

lemma ignores_queue_fault: "ignores_queue (fault en c)"
  by (simp add: ignores_queue_def fault_def split: option.splits)

lemma ignores_queue_modify:
  "(\<And>s q. g (s\<lparr>processing_queue := q\<rparr>) = (g s)\<lparr>processing_queue := q\<rparr>)
   \<Longrightarrow> ignores_queue (modify g)"
  by (simp add: ignores_queue_def modify_def)

lemma ignores_queue_andThen:
  assumes m: "ignores_queue m" and f: "\<And>x. ignores_queue (f x)"
  shows "ignores_queue (andThen m f)"
  unfolding ignores_queue_def
proof (intro allI)
  fix s q
  obtain r s1 where ms: "m s = (r, s1)" by (cases "m s")
  have mq: "m (s\<lparr>processing_queue := q\<rparr>) = (r, s1\<lparr>processing_queue := q\<rparr>)"
    using ignores_queueD[OF m ms] .
  show "andThen m f (s\<lparr>processing_queue := q\<rparr>)
          = (fst (andThen m f s), (snd (andThen m f s))\<lparr>processing_queue := q\<rparr>)"
  proof (cases r)
    case (Inl e)
    then show ?thesis using ms mq by (simp add: andThen_def)
  next
    case (Inr x)
    obtain r2 s2 where fs: "f x s1 = (r2, s2)" by (cases "f x s1")
    have "f x (s1\<lparr>processing_queue := q\<rparr>) = (r2, s2\<lparr>processing_queue := q\<rparr>)"
      using ignores_queueD[OF f fs] .
    then show ?thesis using Inr ms mq fs by (simp add: andThen_def)
  qed
qed

lemma ignores_queue_insert_chunk: "ignores_queue (insert_chunk r)"
  by (simp add: ignores_queue_def insert_chunk_def)

lemma ignores_queue_get_blob: "ignores_queue (get_blob data)"
  by (simp add: ignores_queue_def get_blob_def split: option.splits)

lemma ignores_queue_extractText: "ignores_queue (extractText content mt en)"
  unfolding extractText_def
  by (intro ignores_queue_andThen ignores_queue_fault ignores_queue_ret)

lemma ignores_queue_embed_chunk: "ignores_queue (embed_chunk data en i c)"
  unfolding embed_chunk_def
  by (intro ignores_queue_andThen ignores_queue_fault ignores_queue_modify
      ignores_queue_insert_chunk) simp

lemma ignores_queue_embed_chunks: "ignores_queue (embed_chunks data en i cs)"
proof (induction cs arbitrary: i)
  case Nil
  show ?case by (simp add: ignores_queue_def)
next
  case (Cons c cs)
  show ?case
    unfolding ignores_queue_def
  proof (intro allI)
    fix s q
    obtain r s1 where ec: "embed_chunk data en i c s = (r, s1)"
      by (cases "embed_chunk data en i c s")
    have ecq: "embed_chunk data en i c (s\<lparr>processing_queue := q\<rparr>)
                 = (r, s1\<lparr>processing_queue := q\<rparr>)"
      using ignores_queueD[OF ignores_queue_embed_chunk ec] .
    show "embed_chunks data en i (c # cs) (s\<lparr>processing_queue := q\<rparr>)
            = (fst (embed_chunks data en i (c # cs) s),
               (snd (embed_chunks data en i (c # cs) s))\<lparr>processing_queue := q\<rparr>)"
    proof (cases r)
      case (Inl e)
      then show ?thesis using ec ecq by simp
    next
      case (Inr u)
      then show ?thesis using ec ecq Cons[of "Suc i"] by (simp add: ignores_queue_def)
    qed
  qed
qed

lemma ignores_queue_autoTag: "ignores_queue (autoTag txt ws en)"
  by (simp add: ignores_queue_def autoTag_def andThen_def fault_def ret_def Let_def
      split: option.splits)

lemma ignores_queue_store_tag: "ignores_queue (store_tag data en j tg)"
  by (simp add: ignores_queue_def store_tag_def andThen_def fault_def ret_def randomUUID_def
      select_tag_def insert_tag_def insert_document_tag_def split: option.splits)

lemma ignores_queue_store_tags: "ignores_queue (store_tags data en j tgs)"
proof (induction tgs arbitrary: j)
  case Nil
  show ?case by (simp add: ignores_queue_def)
next
  case (Cons tg tgs)
  show ?case
    unfolding ignores_queue_def
  proof (intro allI)
    fix s q
    obtain r s1 where st: "store_tag data en j tg s = (r, s1)"
      by (cases "store_tag data en j tg s")
    have stq: "store_tag data en j tg (s\<lparr>processing_queue := q\<rparr>)
                 = (r, s1\<lparr>processing_queue := q\<rparr>)"
      using ignores_queueD[OF ignores_queue_store_tag st] .
    show "store_tags data en j (tg # tgs) (s\<lparr>processing_queue := q\<rparr>)
            = (fst (store_tags data en j (tg # tgs) s),
               (snd (store_tags data en j (tg # tgs) s))\<lparr>processing_queue := q\<rparr>)"
    proof (cases r)
      case (Inl e)
      then show ?thesis using st stq by simp
    next
      case (Inr u)
      then show ?thesis using st stq Cons[of "Suc j"] by (simp add: ignores_queue_def)
    qed
  qed
qed

lemma ignores_queue_process_blob: "ignores_queue (process_blob extractText data en content)"
  unfolding process_blob_def
  by (intro ignores_queue_andThen ignores_queue_fault ignores_queue_modify
      ignores_queue_extractText ignores_queue_embed_chunks ignores_queue_autoTag
      ignores_queue_store_tags) (simp_all add: update_ready_def)

lemma ignores_queue_try: "ignores_queue (processDocument_try extractText data en)"
  unfolding processDocument_try_def
  by (intro ignores_queue_andThen ignores_queue_fault ignores_queue_modify
      ignores_queue_get_blob ignores_queue_process_blob) (simp_all add: update_status_def)

lemma ignores_queue_processDocument: "ignores_queue (processDocument data en)"
  unfolding ignores_queue_def
proof (intro allI)
  fix s q
  obtain r s1 where t: "processDocument_try extractText data en s = (r, s1)"
    by (cases "processDocument_try extractText data en s")
  have tq: "processDocument_try extractText data en (s\<lparr>processing_queue := q\<rparr>)
              = (r, s1\<lparr>processing_queue := q\<rparr>)"
    using ignores_queueD[OF ignores_queue_try t] .
  show "processDocument data en (s\<lparr>processing_queue := q\<rparr>)
          = (fst (processDocument data en s), (snd (processDocument data en s))\<lparr>processing_queue := q\<rparr>)"
  proof (cases r)
    case (Inr u)
    then show ?thesis using t tq by (simp add: processDocument_def processDocument_with_def)
  next
    case (Inl e)
    then show ?thesis using t tq
      by (simp add: processDocument_def processDocument_with_def andThen_def fault_def
          modify_def update_error_def split: option.splits)
  qed
qed


subsection \<open>The two modes\<close>

lemma upload_new_shape:
  assumes "upload_new file W u en docId s = (Inr r, s1)"
  shows "\<exists>msg sb. m_type msg = ''document_uploaded'' \<and> document_id msg = docId
          \<and> processing_queue sb = processing_queue s
          \<and> (\<forall>b. upload_new file W u (en\<lparr>has_queue := b\<rparr>) docId s
                   = start_processing msg file (en\<lparr>has_queue := b\<rparr>) sb)"
proof -
  let ?mime = "if f_type file = [] then getMimeType (f_name file) else f_type file"
  let ?key = "''documents/'' @ W @ ''/'' @ docId @ ''/'' @ f_name file"
  let ?doc = "\<lparr>d_id = docId, d_workspace_id = W, d_user_id = u,
              d_title = f_name file, d_file_key = ?key, d_text_key = None,
              d_content_hash = sha256 en (f_content file), d_mime_type = ?mime,
              d_file_size_bytes = length (f_content file), d_status = StPending,
              d_error_message = None, d_created_at = now en, d_updated_at = now en\<rparr>"
  let ?msg = "\<lparr>m_type = ''document_uploaded'', document_id = docId,
              workspace_id = W, user_id = u, file_key = ?key, mime_type = ?mime\<rparr>"
  let ?sb = "s\<lparr>files := (files s)(?key \<mapsto> f_content file),
               documents := documents s @ [?doc]\<rparr>"
  have ok: "?mime \<in> set allowedTypes"
    using assms by (auto simp: upload_new_def Let_def throw_def split: if_splits)
  then have run: "andThen (fault en FilesPut) (\<lambda>_.
           andThen (modify (\<lambda>s. s\<lparr>files := (files s)(?key \<mapsto> f_content file)\<rparr>)) (\<lambda>_.
           andThen (fault en DbInsertDocument) (\<lambda>_.
           andThen (insert_document ?doc) (\<lambda>_. start_processing ?msg file en)))) s = (Inr r, s1)"
    using assms by (simp add: upload_new_def Let_def)
  have f1: "faults en FilesPut = None"
    using run by (auto simp: andThen_def fault_def split: option.splits)
  have f2: "faults en DbInsertDocument = None"
    using run f1 by (auto simp: andThen_def fault_def modify_def split: option.splits)
  have fresh: "docId \<notin> set (map d_id (documents s))"
    using run f1 f2
    by (auto simp: andThen_def fault_def modify_def insert_document_def split: if_splits)
  have "upload_new file W u (en\<lparr>has_queue := b\<rparr>) docId s
          = start_processing ?msg file (en\<lparr>has_queue := b\<rparr>) ?sb" for b
    using ok f1 f2 fresh
    by (simp add: upload_new_def Let_def andThen_def fault_def modify_def insert_document_def)
  then show ?thesis
    by (intro exI[of _ ?msg] exI[of _ ?sb]) simp
qed

lemma uploadFile_shape:
  assumes "uploadFile file W u en s = (Inr r, s1)" and "r_status r \<noteq> ''duplicate''"
  shows "\<exists>msg sb. m_type msg = ''document_uploaded''
          \<and> processing_queue sb = processing_queue s
          \<and> (\<forall>b. uploadFile file W u (en\<lparr>has_queue := b\<rparr>) s
                   = start_processing msg file (en\<lparr>has_queue := b\<rparr>) sb)"
proof -
  let ?sa = "s\<lparr>uuid_count := Suc (uuid_count s)\<rparr>"
  let ?h = "sha256 en (f_content file)"
  let ?id = "uuid en (uuid_count s)"
  have nf: "faults en DbSelectDuplicate = None"
    using assms(1)
    by (auto simp: uploadFile_def andThen_def randomUUID_def fault_def split: option.splits)
  have none: "select_duplicate W ?h s = None"
    using uploadFile_cases[OF assms(1)] assms(2) by auto
  have sd: "select_duplicate W ?h ?sa = None"
    using none by (simp add: select_duplicate_def)
  have new: "uploadFile file W u (en\<lparr>has_queue := b\<rparr>) s
               = upload_new file W u (en\<lparr>has_queue := b\<rparr>) ?id ?sa" for b
    using nf sd by (simp add: uploadFile_def andThen_def randomUUID_def fault_def)
  have "upload_new file W u en ?id ?sa = (Inr r, s1)"
    using new[of "has_queue en"] assms(1) by simp
  from upload_new_shape[OF this] obtain msg sb
    where "m_type msg = ''document_uploaded''" "processing_queue sb = processing_queue ?sa"
      "\<forall>b. upload_new file W u (en\<lparr>has_queue := b\<rparr>) ?id ?sa
             = start_processing msg file (en\<lparr>has_queue := b\<rparr>) sb"
    by blast
  then show ?thesis using new by (intro exI[of _ msg] exI[of _ sb]) simp
qed

lemma queue_consumer_one:
  "m_type m = ''document_uploaded''
   \<Longrightarrow> queue_consumer [m] en s
       = ([case fst (processDocument m en s) of Inl e \<Rightarrow> Retry | Inr u \<Rightarrow> Ack],
          snd (processDocument m en s))"
  by (simp split: prod.splits sum.splits)

lemma start_processing_inline:
  "\<not> has_queue en
   \<Longrightarrow> start_processing m file en s
       = (Inr \<lparr>r_id = document_id m, r_title = f_name file,
               r_status = (case fst (processDocument m en s) of
                             Inl e \<Rightarrow> ''error'' | Inr u \<Rightarrow> ''ready''),
               r_created_at = now en\<rparr>,
          snd (processDocument m en s))"
  by (simp add: start_processing_def split: prod.splits sum.splits)

lemma start_processing_queued:
  "has_queue en \<Longrightarrow> start_processing m file en s = (Inr r, s1)
   \<Longrightarrow> r = \<lparr>r_id = document_id m, r_title = f_name file, r_status = ''pending'',
             r_created_at = now en\<rparr>
       \<and> s1 = s\<lparr>processing_queue := processing_queue s @ [m]\<rparr>"
  by (auto simp: start_processing_def andThen_def fault_def modify_def ret_def
      split: option.splits)

text \<open>
  Claim C8. The queue consumer and the inline branch of the upload call the one
  \<open>processDocument\<close>. The consumer, given an upload message, leaves the state that
  \<open>processDocument\<close> leaves, acknowledging the message when it returns and retrying it
  when it throws. And an upload in queued mode followed by the consumer's run on the
  message it has queued leaves exactly the state that the same upload leaves in inline
  mode, the queue apart: the same blobs, document row and status, chunks, vectors, tags
  and associations. The two uploads answer with the same document identifier, the
  queued one with status \<open>pending\<close>, the inline one with \<open>ready\<close> or \<open>error\<close>; and the
  message is acknowledged exactly when the inline upload answers \<open>ready\<close>.
\<close>

theorem queued_and_inline_run_same_pipeline:
  "(m_type m = ''document_uploaded''
      \<longrightarrow> queue_consumer [m] en s
          = ([case fst (processDocument m en s) of Inl e \<Rightarrow> Retry | Inr u \<Rightarrow> Ack],
             snd (processDocument m en s)))
   \<and> (uploadFile f W u (en\<lparr>has_queue := True\<rparr>) s = (Inr rq, sq)
        \<and> r_status rq \<noteq> ''duplicate''
      \<longrightarrow> (\<exists>msg ri si.
             r_status rq = ''pending''
             \<and> processing_queue sq = processing_queue s @ [msg]
             \<and> m_type msg = ''document_uploaded'' \<and> document_id msg = r_id rq
             \<and> uploadFile f W u (en\<lparr>has_queue := False\<rparr>) s = (Inr ri, si)
             \<and> r_id ri = r_id rq
             \<and> queue_consumer [msg] (en\<lparr>has_queue := True\<rparr>) sq
               = ([if r_status ri = ''ready'' then Ack else Retry],
                  si\<lparr>processing_queue := processing_queue sq\<rparr>)
             \<and> processing_queue si = processing_queue s
             \<and> (r_status ri = ''ready'' \<or> r_status ri = ''error'')))"
proof (intro conjI impI)
  assume "m_type m = ''document_uploaded''"
  then show "queue_consumer [m] en s
          = ([case fst (processDocument m en s) of Inl e \<Rightarrow> Retry | Inr u \<Rightarrow> Ack],
             snd (processDocument m en s))"
    by (rule queue_consumer_one)
next
  let ?enq = "en\<lparr>has_queue := True\<rparr>" and ?eni = "en\<lparr>has_queue := False\<rparr>"
  assume h: "uploadFile f W u ?enq s = (Inr rq, sq) \<and> r_status rq \<noteq> ''duplicate''"
  then have up: "uploadFile f W u ?enq s = (Inr rq, sq)" and nd: "r_status rq \<noteq> ''duplicate''"
    by simp_all
  from uploadFile_shape[OF up nd] obtain msg sb
    where mt: "m_type msg = ''document_uploaded''"
      and pq: "processing_queue sb = processing_queue s"
      and sh: "\<And>b. uploadFile f W u (en\<lparr>has_queue := b\<rparr>) s
                   = start_processing msg f (en\<lparr>has_queue := b\<rparr>) sb"
    by auto
  have "start_processing msg f ?enq sb = (Inr rq, sq)"
    using sh[of True] up by simp
  from start_processing_queued[OF _ this]
  have rq: "rq = \<lparr>r_id = document_id msg, r_title = f_name f, r_status = ''pending'',
                  r_created_at = now en\<rparr>"
    and sq: "sq = sb\<lparr>processing_queue := processing_queue sb @ [msg]\<rparr>"
    by simp_all
  let ?p = "processDocument msg en sb"
  let ?ri = "\<lparr>r_id = document_id msg, r_title = f_name f,
               r_status = (case fst ?p of Inl e \<Rightarrow> ''error'' | Inr u \<Rightarrow> ''ready''),
               r_created_at = now en\<rparr>"
  have inl: "uploadFile f W u ?eni s = (Inr ?ri, snd ?p)"
    using sh[of False] start_processing_inline[of ?eni msg f sb]
    by (simp add: processDocument_mode)
  have "processDocument msg ?enq sq
          = (fst ?p, (snd ?p)\<lparr>processing_queue := processing_queue sq\<rparr>)"
    using ignores_queue_processDocument[of msg en]
    by (simp add: processDocument_mode sq ignores_queue_def)
  then have qc: "queue_consumer [msg] ?enq sq
      = ([if r_status ?ri = ''ready'' then Ack else Retry],
         (snd ?p)\<lparr>processing_queue := processing_queue sq\<rparr>)"
    using mt by (simp add: queue_consumer_one split: sum.splits)
  have keepq: "processing_queue (snd ?p) = processing_queue s"
    using ignores_queue_keeps[OF ignores_queue_processDocument, of msg en sb] pq by simp
  have st: "r_status ?ri = ''ready'' \<or> r_status ?ri = ''error''"
    by (simp split: sum.splits)
  show "\<exists>msg ri si.
             r_status rq = ''pending''
             \<and> processing_queue sq = processing_queue s @ [msg]
             \<and> m_type msg = ''document_uploaded'' \<and> document_id msg = r_id rq
             \<and> uploadFile f W u ?eni s = (Inr ri, si)
             \<and> r_id ri = r_id rq
             \<and> queue_consumer [msg] ?enq sq
               = ([if r_status ri = ''ready'' then Ack else Retry],
                  si\<lparr>processing_queue := processing_queue sq\<rparr>)
             \<and> processing_queue si = processing_queue s
             \<and> (r_status ri = ''ready'' \<or> r_status ri = ''error'')"
    apply (rule exI[of _ msg], rule exI[of _ ?ri], rule exI[of _ "snd ?p"])
    using rq sq pq mt inl qc keepq st by simp
qed

theorem queued_and_inline_run_same_pipeline_witness:
  "m_type msg0 = ''document_uploaded''
   \<and> queue_consumer [msg0] env0 s0 = ([Ack], snd (processDocument msg0 env0 s0))
   \<and> fst (uploadFile mail0 ''w1'' ''u1'' (env0\<lparr>has_queue := True\<rparr>) s_empty)
     = Inr \<lparr>r_id = ''uuid-0'', r_title = ''note.eml'', r_status = ''pending'',
            r_created_at = ''2024-01-01T00:00:00.000Z''\<rparr>
   \<and> (\<exists>msg ri si.
         processing_queue (snd (uploadFile mail0 ''w1'' ''u1'' (env0\<lparr>has_queue := True\<rparr>) s_empty))
           = processing_queue s_empty @ [msg]
         \<and> m_type msg = ''document_uploaded'' \<and> document_id msg = ''uuid-0''
         \<and> uploadFile mail0 ''w1'' ''u1'' (env0\<lparr>has_queue := False\<rparr>) s_empty = (Inr ri, si)
         \<and> r_id ri = ''uuid-0''
         \<and> queue_consumer [msg] (env0\<lparr>has_queue := True\<rparr>)
              (snd (uploadFile mail0 ''w1'' ''u1'' (env0\<lparr>has_queue := True\<rparr>) s_empty))
            = ([if r_status ri = ''ready'' then Ack else Retry],
               si\<lparr>processing_queue := processing_queue
                    (snd (uploadFile mail0 ''w1'' ''u1'' (env0\<lparr>has_queue := True\<rparr>) s_empty))\<rparr>))
   \<and> files (snd (uploadFile mail0 ''w1'' ''u1'' (env0\<lparr>has_queue := False\<rparr>) s_empty))
        ''text/uuid-0.txt''
     = Some ''[Unsupported document type: message/rfc822]''
   \<and> (case uploadFile mail0 ''w1'' ''u1'' (env0\<lparr>has_queue := True\<rparr>) s_empty of
        (r, s) \<Rightarrow> files (snd (queue_consumer (processing_queue s)
                             (env0\<lparr>has_queue := True\<rparr>) s)) ''text/uuid-0.txt'')
     = Some ''[Unsupported document type: message/rfc822]''"
proof -
  let ?rq = "\<lparr>r_id = ''uuid-0'', r_title = ''note.eml'', r_status = ''pending'',
            r_created_at = ''2024-01-01T00:00:00.000Z''\<rparr>"
  let ?sq = "snd (uploadFile mail0 ''w1'' ''u1'' (env0\<lparr>has_queue := True\<rparr>) s_empty)"
  have mt: "m_type msg0 = ''document_uploaded''" by (simp add: msg0_def)
  have a: "fst (uploadFile mail0 ''w1'' ''u1'' (env0\<lparr>has_queue := True\<rparr>) s_empty) = Inr ?rq"
    by code_simp
  have up: "uploadFile mail0 ''w1'' ''u1'' (env0\<lparr>has_queue := True\<rparr>) s_empty = (Inr ?rq, ?sq)"
    using a by (metis prod.collapse)
  have ok: "fst (processDocument msg0 env0 s0) = Inr ()" by code_simp
  have t1: "files (snd (uploadFile mail0 ''w1'' ''u1'' (env0\<lparr>has_queue := False\<rparr>) s_empty))
        ''text/uuid-0.txt''
     = Some ''[Unsupported document type: message/rfc822]''"
    by code_simp
  have t2: "(case uploadFile mail0 ''w1'' ''u1'' (env0\<lparr>has_queue := True\<rparr>) s_empty of
        (r, s) \<Rightarrow> files (snd (queue_consumer (processing_queue s)
                             (env0\<lparr>has_queue := True\<rparr>) s)) ''text/uuid-0.txt'')
     = Some ''[Unsupported document type: message/rfc822]''"
    by code_simp
  note inst = queued_and_inline_run_same_pipeline[where m = msg0 and en = env0 and s = s0]
  from inst mt ok
  have q: "queue_consumer [msg0] env0 s0 = ([Ack], snd (processDocument msg0 env0 s0))"
    by simp
  note inst2 = queued_and_inline_run_same_pipeline[where f = mail0 and W = "''w1''"
      and u = "''u1''" and en = env0 and s = s_empty and rq = ?rq and sq = ?sq]
  from inst2 up
  have e: "\<exists>msg ri si.
         processing_queue ?sq = processing_queue s_empty @ [msg]
         \<and> m_type msg = ''document_uploaded'' \<and> document_id msg = ''uuid-0''
         \<and> uploadFile mail0 ''w1'' ''u1'' (env0\<lparr>has_queue := False\<rparr>) s_empty = (Inr ri, si)
         \<and> r_id ri = ''uuid-0''
         \<and> queue_consumer [msg] (env0\<lparr>has_queue := True\<rparr>) ?sq
            = ([if r_status ri = ''ready'' then Ack else Retry],
               si\<lparr>processing_queue := processing_queue ?sq\<rparr>)"
    by fastforce
  show ?thesis using mt a q e t1 t2 by blast
qed

end
